theory Spec2Isabelle
  imports Main
begin

section \<open>Python values\<close>

text \<open>
  A Python \<open>str\<close> is a sequence of Unicode code points, and \<open>len\<close>, indexing and the
  \<open>re\<close> module all count code points. The box-drawing characters of the divider
  patterns lie far above 255, so text is a list of code points, not a list of 8-bit
  characters. \<open>u\<close> turns an ASCII literal into such a text.
\<close>

type_synonym pystr = "nat list"

definition u :: "string \<Rightarrow> pystr" where
  "u s = map of_char s"

text \<open>The exceptions that the analysed functions can raise.\<close>

datatype error = SyntaxError | AttributeError | IndexError | UnicodeEncodeError

section \<open>String methods\<close>

text \<open>
  Case mapping is that of ASCII: code points above 127 count as caseless, where Python
  consults the Unicode database. Every place where the analysed code changes case applies
  it to text that a pattern has already restricted to ASCII, or the statement proved does
  not depend on the outcome. White space is the full list of code points for which
  \<open>str.isspace\<close> holds.

  A word character, for \<open>\w\<close> and \<open>\b\<close> of a \<open>str\<close> pattern, is the underscore or a code
  point for which \<open>str.isalnum\<close> holds. \<open>word_ranges\<close> lists the inclusive ranges of those
  above 127, as CPython 3.11 has them (Unicode 14.0).
\<close>

definition is_upper :: "nat \<Rightarrow> bool" where
  "is_upper c \<longleftrightarrow> 65 \<le> c \<and> c \<le> 90"

definition is_lower :: "nat \<Rightarrow> bool" where
  "is_lower c \<longleftrightarrow> 97 \<le> c \<and> c \<le> 122"

definition is_digit :: "nat \<Rightarrow> bool" where
  "is_digit c \<longleftrightarrow> 48 \<le> c \<and> c \<le> 57"

definition word_ranges :: "(nat \<times> nat) list" where
  "word_ranges =
    [(170, 170), (178, 179), (181, 181), (185, 186), (188, 190), (192, 214), (216, 246),
     (248, 705), (710, 721), (736, 740), (748, 748), (750, 750), (880, 884), (886, 887),
     (890, 893), (895, 895), (902, 902), (904, 906), (908, 908), (910, 929), (931, 1013),
     (1015, 1153), (1162, 1327), (1329, 1366), (1369, 1369), (1376, 1416), (1488, 1514),
     (1519, 1522), (1568, 1610), (1632, 1641), (1646, 1647), (1649, 1747), (1749, 1749),
     (1765, 1766), (1774, 1788), (1791, 1791), (1808, 1808), (1810, 1839), (1869, 1957),
     (1969, 1969), (1984, 2026), (2036, 2037), (2042, 2042), (2048, 2069), (2074, 2074),
     (2084, 2084), (2088, 2088), (2112, 2136), (2144, 2154), (2160, 2183), (2185, 2190),
     (2208, 2249), (2308, 2361), (2365, 2365), (2384, 2384), (2392, 2401), (2406, 2415),
     (2417, 2432), (2437, 2444), (2447, 2448), (2451, 2472), (2474, 2480), (2482, 2482),
     (2486, 2489), (2493, 2493), (2510, 2510), (2524, 2525), (2527, 2529), (2534, 2545),
     (2548, 2553), (2556, 2556), (2565, 2570), (2575, 2576), (2579, 2600), (2602, 2608),
     (2610, 2611), (2613, 2614), (2616, 2617), (2649, 2652), (2654, 2654), (2662, 2671),
     (2674, 2676), (2693, 2701), (2703, 2705), (2707, 2728), (2730, 2736), (2738, 2739),
     (2741, 2745), (2749, 2749), (2768, 2768), (2784, 2785), (2790, 2799), (2809, 2809),
     (2821, 2828), (2831, 2832), (2835, 2856), (2858, 2864), (2866, 2867), (2869, 2873),
     (2877, 2877), (2908, 2909), (2911, 2913), (2918, 2927), (2929, 2935), (2947, 2947),
     (2949, 2954), (2958, 2960), (2962, 2965), (2969, 2970), (2972, 2972), (2974, 2975),
     (2979, 2980), (2984, 2986), (2990, 3001), (3024, 3024), (3046, 3058), (3077, 3084),
     (3086, 3088), (3090, 3112), (3114, 3129), (3133, 3133), (3160, 3162), (3165, 3165),
     (3168, 3169), (3174, 3183), (3192, 3198), (3200, 3200), (3205, 3212), (3214, 3216),
     (3218, 3240), (3242, 3251), (3253, 3257), (3261, 3261), (3293, 3294), (3296, 3297),
     (3302, 3311), (3313, 3314), (3332, 3340), (3342, 3344), (3346, 3386), (3389, 3389),
     (3406, 3406), (3412, 3414), (3416, 3425), (3430, 3448), (3450, 3455), (3461, 3478),
     (3482, 3505), (3507, 3515), (3517, 3517), (3520, 3526), (3558, 3567), (3585, 3632),
     (3634, 3635), (3648, 3654), (3664, 3673), (3713, 3714), (3716, 3716), (3718, 3722),
     (3724, 3747), (3749, 3749), (3751, 3760), (3762, 3763), (3773, 3773), (3776, 3780),
     (3782, 3782), (3792, 3801), (3804, 3807), (3840, 3840), (3872, 3891), (3904, 3911),
     (3913, 3948), (3976, 3980), (4096, 4138), (4159, 4169), (4176, 4181), (4186, 4189),
     (4193, 4193), (4197, 4198), (4206, 4208), (4213, 4225), (4238, 4238), (4240, 4249),
     (4256, 4293), (4295, 4295), (4301, 4301), (4304, 4346), (4348, 4680), (4682, 4685),
     (4688, 4694), (4696, 4696), (4698, 4701), (4704, 4744), (4746, 4749), (4752, 4784),
     (4786, 4789), (4792, 4798), (4800, 4800), (4802, 4805), (4808, 4822), (4824, 4880),
     (4882, 4885), (4888, 4954), (4969, 4988), (4992, 5007), (5024, 5109), (5112, 5117),
     (5121, 5740), (5743, 5759), (5761, 5786), (5792, 5866), (5870, 5880), (5888, 5905),
     (5919, 5937), (5952, 5969), (5984, 5996), (5998, 6000), (6016, 6067), (6103, 6103),
     (6108, 6108), (6112, 6121), (6128, 6137), (6160, 6169), (6176, 6264), (6272, 6276),
     (6279, 6312), (6314, 6314), (6320, 6389), (6400, 6430), (6470, 6509), (6512, 6516),
     (6528, 6571), (6576, 6601), (6608, 6618), (6656, 6678), (6688, 6740), (6784, 6793),
     (6800, 6809), (6823, 6823), (6917, 6963), (6981, 6988), (6992, 7001), (7043, 7072),
     (7086, 7141), (7168, 7203), (7232, 7241), (7245, 7293), (7296, 7304), (7312, 7354),
     (7357, 7359), (7401, 7404), (7406, 7411), (7413, 7414), (7418, 7418), (7424, 7615),
     (7680, 7957), (7960, 7965), (7968, 8005), (8008, 8013), (8016, 8023), (8025, 8025),
     (8027, 8027), (8029, 8029), (8031, 8061), (8064, 8116), (8118, 8124), (8126, 8126),
     (8130, 8132), (8134, 8140), (8144, 8147), (8150, 8155), (8160, 8172), (8178, 8180),
     (8182, 8188), (8304, 8305), (8308, 8313), (8319, 8329), (8336, 8348), (8450, 8450),
     (8455, 8455), (8458, 8467), (8469, 8469), (8473, 8477), (8484, 8484), (8486, 8486),
     (8488, 8488), (8490, 8493), (8495, 8505), (8508, 8511), (8517, 8521), (8526, 8526),
     (8528, 8585), (9312, 9371), (9450, 9471), (10102, 10131), (11264, 11492), (11499, 11502),
     (11506, 11507), (11517, 11517), (11520, 11557), (11559, 11559), (11565, 11565),
     (11568, 11623), (11631, 11631), (11648, 11670), (11680, 11686), (11688, 11694),
     (11696, 11702), (11704, 11710), (11712, 11718), (11720, 11726), (11728, 11734),
     (11736, 11742), (11823, 11823), (12293, 12295), (12321, 12329), (12337, 12341),
     (12344, 12348), (12353, 12438), (12445, 12447), (12449, 12538), (12540, 12543),
     (12549, 12591), (12593, 12686), (12690, 12693), (12704, 12735), (12784, 12799),
     (12832, 12841), (12872, 12879), (12881, 12895), (12928, 12937), (12977, 12991),
     (13312, 19903), (19968, 42124), (42192, 42237), (42240, 42508), (42512, 42539),
     (42560, 42606), (42623, 42653), (42656, 42735), (42775, 42783), (42786, 42888),
     (42891, 42954), (42960, 42961), (42963, 42963), (42965, 42969), (42994, 43009),
     (43011, 43013), (43015, 43018), (43020, 43042), (43056, 43061), (43072, 43123),
     (43138, 43187), (43216, 43225), (43250, 43255), (43259, 43259), (43261, 43262),
     (43264, 43301), (43312, 43334), (43360, 43388), (43396, 43442), (43471, 43481),
     (43488, 43492), (43494, 43518), (43520, 43560), (43584, 43586), (43588, 43595),
     (43600, 43609), (43616, 43638), (43642, 43642), (43646, 43695), (43697, 43697),
     (43701, 43702), (43705, 43709), (43712, 43712), (43714, 43714), (43739, 43741),
     (43744, 43754), (43762, 43764), (43777, 43782), (43785, 43790), (43793, 43798),
     (43808, 43814), (43816, 43822), (43824, 43866), (43868, 43881), (43888, 44002),
     (44016, 44025), (44032, 55203), (55216, 55238), (55243, 55291), (63744, 64109),
     (64112, 64217), (64256, 64262), (64275, 64279), (64285, 64285), (64287, 64296),
     (64298, 64310), (64312, 64316), (64318, 64318), (64320, 64321), (64323, 64324),
     (64326, 64433), (64467, 64829), (64848, 64911), (64914, 64967), (65008, 65019),
     (65136, 65140), (65142, 65276), (65296, 65305), (65313, 65338), (65345, 65370),
     (65382, 65470), (65474, 65479), (65482, 65487), (65490, 65495), (65498, 65500),
     (65536, 65547), (65549, 65574), (65576, 65594), (65596, 65597), (65599, 65613),
     (65616, 65629), (65664, 65786), (65799, 65843), (65856, 65912), (65930, 65931),
     (66176, 66204), (66208, 66256), (66273, 66299), (66304, 66339), (66349, 66378),
     (66384, 66421), (66432, 66461), (66464, 66499), (66504, 66511), (66513, 66517),
     (66560, 66717), (66720, 66729), (66736, 66771), (66776, 66811), (66816, 66855),
     (66864, 66915), (66928, 66938), (66940, 66954), (66956, 66962), (66964, 66965),
     (66967, 66977), (66979, 66993), (66995, 67001), (67003, 67004), (67072, 67382),
     (67392, 67413), (67424, 67431), (67456, 67461), (67463, 67504), (67506, 67514),
     (67584, 67589), (67592, 67592), (67594, 67637), (67639, 67640), (67644, 67644),
     (67647, 67669), (67672, 67702), (67705, 67742), (67751, 67759), (67808, 67826),
     (67828, 67829), (67835, 67867), (67872, 67897), (67968, 68023), (68028, 68047),
     (68050, 68096), (68112, 68115), (68117, 68119), (68121, 68149), (68160, 68168),
     (68192, 68222), (68224, 68255), (68288, 68295), (68297, 68324), (68331, 68335),
     (68352, 68405), (68416, 68437), (68440, 68466), (68472, 68497), (68521, 68527),
     (68608, 68680), (68736, 68786), (68800, 68850), (68858, 68899), (68912, 68921),
     (69216, 69246), (69248, 69289), (69296, 69297), (69376, 69415), (69424, 69445),
     (69457, 69460), (69488, 69505), (69552, 69579), (69600, 69622), (69635, 69687),
     (69714, 69743), (69745, 69746), (69749, 69749), (69763, 69807), (69840, 69864),
     (69872, 69881), (69891, 69926), (69942, 69951), (69956, 69956), (69959, 69959),
     (69968, 70002), (70006, 70006), (70019, 70066), (70081, 70084), (70096, 70106),
     (70108, 70108), (70113, 70132), (70144, 70161), (70163, 70187), (70272, 70278),
     (70280, 70280), (70282, 70285), (70287, 70301), (70303, 70312), (70320, 70366),
     (70384, 70393), (70405, 70412), (70415, 70416), (70419, 70440), (70442, 70448),
     (70450, 70451), (70453, 70457), (70461, 70461), (70480, 70480), (70493, 70497),
     (70656, 70708), (70727, 70730), (70736, 70745), (70751, 70753), (70784, 70831),
     (70852, 70853), (70855, 70855), (70864, 70873), (71040, 71086), (71128, 71131),
     (71168, 71215), (71236, 71236), (71248, 71257), (71296, 71338), (71352, 71352),
     (71360, 71369), (71424, 71450), (71472, 71483), (71488, 71494), (71680, 71723),
     (71840, 71922), (71935, 71942), (71945, 71945), (71948, 71955), (71957, 71958),
     (71960, 71983), (71999, 71999), (72001, 72001), (72016, 72025), (72096, 72103),
     (72106, 72144), (72161, 72161), (72163, 72163), (72192, 72192), (72203, 72242),
     (72250, 72250), (72272, 72272), (72284, 72329), (72349, 72349), (72368, 72440),
     (72704, 72712), (72714, 72750), (72768, 72768), (72784, 72812), (72818, 72847),
     (72960, 72966), (72968, 72969), (72971, 73008), (73030, 73030), (73040, 73049),
     (73056, 73061), (73063, 73064), (73066, 73097), (73112, 73112), (73120, 73129),
     (73440, 73458), (73648, 73648), (73664, 73684), (73728, 74649), (74752, 74862),
     (74880, 75075), (77712, 77808), (77824, 78894), (82944, 83526), (92160, 92728),
     (92736, 92766), (92768, 92777), (92784, 92862), (92864, 92873), (92880, 92909),
     (92928, 92975), (92992, 92995), (93008, 93017), (93019, 93025), (93027, 93047),
     (93053, 93071), (93760, 93846), (93952, 94026), (94032, 94032), (94099, 94111),
     (94176, 94177), (94179, 94179), (94208, 100343), (100352, 101589), (101632, 101640),
     (110576, 110579), (110581, 110587), (110589, 110590), (110592, 110882), (110928, 110930),
     (110948, 110951), (110960, 111355), (113664, 113770), (113776, 113788), (113792, 113800),
     (113808, 113817), (119520, 119539), (119648, 119672), (119808, 119892), (119894, 119964),
     (119966, 119967), (119970, 119970), (119973, 119974), (119977, 119980), (119982, 119993),
     (119995, 119995), (119997, 120003), (120005, 120069), (120071, 120074), (120077, 120084),
     (120086, 120092), (120094, 120121), (120123, 120126), (120128, 120132), (120134, 120134),
     (120138, 120144), (120146, 120485), (120488, 120512), (120514, 120538), (120540, 120570),
     (120572, 120596), (120598, 120628), (120630, 120654), (120656, 120686), (120688, 120712),
     (120714, 120744), (120746, 120770), (120772, 120779), (120782, 120831), (122624, 122654),
     (123136, 123180), (123191, 123197), (123200, 123209), (123214, 123214), (123536, 123565),
     (123584, 123627), (123632, 123641), (124896, 124902), (124904, 124907), (124909, 124910),
     (124912, 124926), (124928, 125124), (125127, 125135), (125184, 125251), (125259, 125259),
     (125264, 125273), (126065, 126123), (126125, 126127), (126129, 126132), (126209, 126253),
     (126255, 126269), (126464, 126467), (126469, 126495), (126497, 126498), (126500, 126500),
     (126503, 126503), (126505, 126514), (126516, 126519), (126521, 126521), (126523, 126523),
     (126530, 126530), (126535, 126535), (126537, 126537), (126539, 126539), (126541, 126543),
     (126545, 126546), (126548, 126548), (126551, 126551), (126553, 126553), (126555, 126555),
     (126557, 126557), (126559, 126559), (126561, 126562), (126564, 126564), (126567, 126570),
     (126572, 126578), (126580, 126583), (126585, 126588), (126590, 126590), (126592, 126601),
     (126603, 126619), (126625, 126627), (126629, 126633), (126635, 126651), (127232, 127244),
     (130032, 130041), (131072, 173791), (173824, 177976), (177984, 178205), (178208, 183969),
     (183984, 191456), (194560, 195101), (196608, 201546)]"

definition is_word :: "nat \<Rightarrow> bool" where
  "is_word c \<longleftrightarrow>
     is_upper c \<or> is_lower c \<or> is_digit c \<or> c = 95 \<or>
     list_ex (\<lambda>(lo, hi). lo \<le> c \<and> c \<le> hi) word_ranges"

definition is_space :: "nat \<Rightarrow> bool" where
  "is_space c \<longleftrightarrow>
     (9 \<le> c \<and> c \<le> 13) \<or> (28 \<le> c \<and> c \<le> 32) \<or> c = 133 \<or> c = 160 \<or> c = 5760 \<or>
     (8192 \<le> c \<and> c \<le> 8202) \<or> c = 8232 \<or> c = 8233 \<or> c = 8239 \<or> c = 8287 \<or> c = 12288"

definition lower_chr :: "nat \<Rightarrow> nat" where
  "lower_chr c = (if is_upper c then c + 32 else c)"

definition upper_chr :: "nat \<Rightarrow> nat" where
  "upper_chr c = (if is_lower c then c - 32 else c)"

definition lower :: "pystr \<Rightarrow> pystr" where
  "lower s = map lower_chr s"

text \<open>\<open>s.strip()\<close> and \<open>s.strip(chars)\<close>.\<close>

definition strip_by :: "(nat \<Rightarrow> bool) \<Rightarrow> pystr \<Rightarrow> pystr" where
  "strip_by p s = rev (dropWhile p (rev (dropWhile p s)))"

definition strip :: "pystr \<Rightarrow> pystr" where
  "strip s = strip_by is_space s"

definition strip_chars :: "pystr \<Rightarrow> pystr \<Rightarrow> pystr" where
  "strip_chars chars s = strip_by (\<lambda>c. c \<in> set chars) s"

text \<open>
  \<open>s.split(sep)\<close> for a separator of one character: always at least one piece, and an
  empty piece between two neighbouring separators.
\<close>

fun split :: "nat \<Rightarrow> pystr \<Rightarrow> pystr list" where
  "split sep [] = [[]]"
| "split sep (c # cs) =
     (if c = sep then [] # split sep cs
      else (case split sep cs of [] \<Rightarrow> [[c]] | p # ps \<Rightarrow> (c # p) # ps))"

fun join :: "pystr \<Rightarrow> pystr list \<Rightarrow> pystr" where
  "join sep [] = []"
| "join sep [x] = x"
| "join sep (x # y # rest) = x @ sep @ join sep (y # rest)"

text \<open>\<open>s.replace(old, new)\<close> where \<open>old\<close> and \<open>new\<close> are single characters.\<close>

definition replace_chr :: "nat \<Rightarrow> nat \<Rightarrow> pystr \<Rightarrow> pystr" where
  "replace_chr old new s = map (\<lambda>c. if c = old then new else c) s"

text \<open>
  \<open>s.title()\<close>: a cased character is upper-cased when the character before it is not
  cased, and lower-cased otherwise. \<open>s.capitalize()\<close>: the first character upper-cased,
  the others lower-cased.
\<close>

fun title_loop :: "bool \<Rightarrow> pystr \<Rightarrow> pystr" where
  "title_loop previous_is_cased [] = []"
| "title_loop previous_is_cased (c # cs) =
     (if is_lower c then (if previous_is_cased then c else upper_chr c) # title_loop True cs
      else if is_upper c then (if previous_is_cased then lower_chr c else c) # title_loop True cs
      else c # title_loop False cs)"

definition title :: "pystr \<Rightarrow> pystr" where
  "title s = title_loop False s"

fun capitalize :: "pystr \<Rightarrow> pystr" where
  "capitalize [] = []"
| "capitalize (c # cs) = upper_chr c # lower cs"

text \<open>\<open>sub in s\<close>, \<open>s.startswith(sub)\<close> and \<open>s.count(sub)\<close> (occurrences that do not overlap).\<close>

definition startswith :: "pystr \<Rightarrow> pystr \<Rightarrow> bool" where
  "startswith s sub \<longleftrightarrow> take (length sub) s = sub"

fun contains :: "pystr \<Rightarrow> pystr \<Rightarrow> bool" where
  "contains sub [] = (sub = [])"
| "contains sub (c # cs) = (startswith (c # cs) sub \<or> contains sub cs)"

function count_sub :: "pystr \<Rightarrow> pystr \<Rightarrow> nat" where
  "count_sub sub s =
     (if sub = [] then length s + 1
      else if s = [] then 0
      else if startswith s sub then 1 + count_sub sub (drop (length sub) s)
      else count_sub sub (tl s))"
  by pat_completeness auto
termination
  by (relation "measure (\<lambda>(sub, s). length s)") auto

text \<open>\<open>str(i)\<close> for a natural number, as used by the default name \<open>f"module_{i}"\<close>.\<close>

function digits :: "nat \<Rightarrow> pystr" where
  "digits n = (if n < 10 then [48 + n] else digits (n div 10) @ [48 + n mod 10])"
  by pat_completeness auto
termination
  by (relation "measure (\<lambda>n. n)") auto

section \<open>Regular expressions (the re module)\<close>

text \<open>
  The patterns of the repository use literals, character classes, the dot, \<open>\s\<close>, \<open>\w\<close>,
  \<open>\b\<close>, sequencing, greedy and lazy repetition with a lower bound (\<open>*\<close>, \<open>+\<close>, \<open>{n,}\<close>,
  \<open>*?\<close>, \<open>+?\<close>), the greedy option \<open>?\<close> and at most one capture group.
\<close>

datatype regex =
    Eps
  | Chr nat
  | Cls "(nat \<times> nat) list"
  | Dot
  | DotAll
  | Space
  | Word
  | WordB
  | Seq regex regex
  | Rep regex nat bool
  | Opt regex
  | Grp regex

text \<open>
  \<open>Cls\<close> lists the inclusive ranges of a class; \<open>Dot\<close> is the dot without
  \<open>re.DOTALL\<close> and \<open>DotAll\<close> the dot with it; \<open>Rep r n greedy\<close> is \<open>r{n,}\<close>, lazy when
  the flag is false; \<open>Grp\<close> is group 1.

  A matcher state is the text already passed (reversed), the text still ahead and the
  text of group 1 if the group has taken part. \<open>rmatch r st\<close> lists every state in which
  \<open>r\<close> can end when started in \<open>st\<close>, in the order in which a backtracking matcher tries
  them; the head of the list is the match that Python reports.
\<close>

type_synonym mstate = "pystr \<times> pystr \<times> pystr option"

definition in_ranges :: "(nat \<times> nat) list \<Rightarrow> nat \<Rightarrow> bool" where
  "in_ranges rs c = list_ex (\<lambda>(lo, hi). lo \<le> c \<and> c \<le> hi) rs"

fun eat :: "(nat \<Rightarrow> bool) \<Rightarrow> mstate \<Rightarrow> mstate list" where
  "eat p (b, [], g) = []"
| "eat p (b, c # cs, g) = (if p c then [(c # b, cs, g)] else [])"

fun at_word_boundary :: "mstate \<Rightarrow> bool" where
  "at_word_boundary (b, a, g) =
     ((case b of [] \<Rightarrow> False | c # _ \<Rightarrow> is_word c) \<noteq>
      (case a of [] \<Rightarrow> False | c # _ \<Rightarrow> is_word c))"

fun remaining :: "mstate \<Rightarrow> nat" where
  "remaining (b, a, g) = length a"

text \<open>
  Repetition: each round must consume text, so the number of rounds is bounded by the
  length of the text ahead, which is what the fourth argument counts down from.
\<close>

fun rep_loop :: "(mstate \<Rightarrow> mstate list) \<Rightarrow> bool \<Rightarrow> nat \<Rightarrow> nat \<Rightarrow> mstate \<Rightarrow> mstate list" where
  "rep_loop body greedy least 0 st = (if least = 0 then [st] else [])"
| "rep_loop body greedy least (Suc n) st =
     (let again = concat (map (rep_loop body greedy (least - 1) n)
                    (filter (\<lambda>st'. remaining st' < remaining st) (body st)))
      in if 0 < least then again else if greedy then again @ [st] else st # again)"

fun capture :: "mstate \<Rightarrow> mstate \<Rightarrow> mstate" where
  "capture (b, a, g) (b', a', g') = (b', a', Some (take (length a - length a') a))"

fun rmatch :: "regex \<Rightarrow> mstate \<Rightarrow> mstate list" where
  "rmatch Eps st = [st]"
| "rmatch (Chr c) st = eat (\<lambda>x. x = c) st"
| "rmatch (Cls rs) st = eat (in_ranges rs) st"
| "rmatch Dot st = eat (\<lambda>x. x \<noteq> 10) st"
| "rmatch DotAll st = eat (\<lambda>x. True) st"
| "rmatch Space st = eat is_space st"
| "rmatch Word st = eat is_word st"
| "rmatch WordB st = (if at_word_boundary st then [st] else [])"
| "rmatch (Seq r1 r2) st = concat (map (rmatch r2) (rmatch r1 st))"
| "rmatch (Rep r least greedy) st = rep_loop (rmatch r) greedy least (remaining st) st"
| "rmatch (Opt r) st = rmatch r st @ [st]"
| "rmatch (Grp r) st = map (capture st) (rmatch r st)"

definition seqs :: "regex list \<Rightarrow> regex" where
  "seqs rs = foldr Seq rs Eps"

definition lit :: "pystr \<Rightarrow> regex" where
  "lit s = seqs (map Chr s)"

text \<open>
  \<open>re.search\<close> tries every start position from the left, the end of the text included;
  \<open>pattern.match\<close> tries the start of the text only. \<open>group1\<close> is \<open>m.group(1)\<close> of a
  match in which the group took part.
\<close>

fun re_search_from :: "regex \<Rightarrow> pystr \<Rightarrow> pystr \<Rightarrow> mstate option" where
  "re_search_from r b a =
     (case rmatch r (b, a, None) of
        st # _ \<Rightarrow> Some st
      | [] \<Rightarrow> (case a of [] \<Rightarrow> None | c # cs \<Rightarrow> re_search_from r (c # b) cs))"

definition re_search :: "regex \<Rightarrow> pystr \<Rightarrow> mstate option" where
  "re_search r s = re_search_from r [] s"

definition re_match :: "regex \<Rightarrow> pystr \<Rightarrow> bool" where
  "re_match r s \<longleftrightarrow> rmatch r ([], s, None) \<noteq> []"

fun group1 :: "mstate \<Rightarrow> pystr" where
  "group1 (b, a, g) = (case g of None \<Rightarrow> [] | Some t \<Rightarrow> t)"

text \<open>
  \<open>re.sub(pattern, repl, s)\<close> and \<open>re.findall(pattern, s)\<close> scan from the left and go on
  behind each match; after an empty match one character is passed over. The replacement
  is a function of group 1.
\<close>

function sub_loop :: "regex \<Rightarrow> (pystr \<Rightarrow> pystr) \<Rightarrow> pystr \<Rightarrow> pystr \<Rightarrow> pystr" where
  "sub_loop r repl b a =
     (case rmatch r (b, a, None) of
        [] \<Rightarrow> (case a of [] \<Rightarrow> [] | c # cs \<Rightarrow> c # sub_loop r repl (c # b) cs)
      | (b', a', g) # _ \<Rightarrow>
          if length a' < length a then repl (group1 (b', a', g)) @ sub_loop r repl b' a'
          else repl (group1 (b', a', g)) @
               (case a of [] \<Rightarrow> [] | c # cs \<Rightarrow> c # sub_loop r repl (c # b) cs))"
  by pat_completeness auto
termination
  by (relation "measure (\<lambda>(r, repl, b, a). length a)") auto

definition re_sub :: "regex \<Rightarrow> (pystr \<Rightarrow> pystr) \<Rightarrow> pystr \<Rightarrow> pystr" where
  "re_sub r repl s = sub_loop r repl [] s"

function findall_loop :: "regex \<Rightarrow> pystr \<Rightarrow> pystr \<Rightarrow> pystr list" where
  "findall_loop r b a =
     (case rmatch r (b, a, None) of
        [] \<Rightarrow> (case a of [] \<Rightarrow> [] | c # cs \<Rightarrow> findall_loop r (c # b) cs)
      | (b', a', g) # _ \<Rightarrow>
          if length a' < length a then group1 (b', a', g) # findall_loop r b' a'
          else group1 (b', a', g) #
               (case a of [] \<Rightarrow> [] | c # cs \<Rightarrow> findall_loop r (c # b) cs))"
  by pat_completeness auto
termination
  by (relation "measure (\<lambda>(r, b, a). length a)") auto

definition re_findall :: "regex \<Rightarrow> pystr \<Rightarrow> pystr list" where
  "re_findall r s = findall_loop r [] s"

section \<open>Lists and errors\<close>

text \<open>
  \<open>xs[i]\<close> counts a negative index from the end and raises \<open>IndexError\<close> out of range;
  a slice \<open>xs[i:j]\<close> clamps its bounds instead.
\<close>

definition py_index :: "'a list \<Rightarrow> int \<Rightarrow> error + 'a" where
  "py_index xs i =
     (let n = int (length xs); j = (if i < 0 then i + n else i)
      in if 0 \<le> j \<and> j < n then Inr (xs ! nat j) else Inl IndexError)"

definition clamp_index :: "int \<Rightarrow> int \<Rightarrow> int" where
  "clamp_index n i =
     (let j = (if i < 0 then i + n else i) in if j < 0 then 0 else if n < j then n else j)"

definition py_slice :: "'a list \<Rightarrow> int \<Rightarrow> int \<Rightarrow> 'a list" where
  "py_slice xs i j =
     (let n = int (length xs); lo = clamp_index n i; hi = clamp_index n j
      in take (nat (hi - lo)) (drop (nat lo) xs))"

section \<open>Syntax trees (the ast module)\<close>

text \<open>
  Python's abstract syntax. The classes that the analysers look at have a constructor of
  their own with the fields that hold nodes, in the order of \<open>_fields\<close>, and the plain
  fields that the code reads (\<open>lineno\<close> where it does). Every other class of statement,
  of expression and of node (loops, \<open>try\<close>, \<open>with\<close>, operators, comprehensions, handlers
  and so on) is \<open>OtherStmt\<close>, \<open>OtherExpr\<close> or \<open>OtherNode\<close> with its child nodes in the order
  in which \<open>ast.iter_child_nodes\<close> yields them, so that every tree of \<open>ast.parse\<close> is a
  value of \<open>module_ast\<close>. \<open>AsyncFunctionDef\<close> is not a subclass of \<open>FunctionDef\<close> and is one
  of the other statements. The \<open>type_ignores\<close> of a module are empty unless \<open>ast.parse\<close>
  is asked for type comments, which the repository never does.
\<close>

datatype expr_context = Load | Store | Del

datatype ast_alias = Alias (alias_name: pystr) (asname: "pystr option")

datatype expr =
    Name pystr expr_context
  | Constant pystr
  | Call expr "expr list" "keyword list"
  | Attribute expr pystr expr_context
  | OtherExpr "node list"
and keyword = Keyword "pystr option" expr
and arg = Arg (arg_name: pystr) "expr option"
and arguments =
    Arguments "arg list" "arg list" "arg option" "arg list" "expr option list" "arg option"
      "expr list"
and stmt =
    FunctionDef pystr arguments "stmt list" "expr list" "expr option" int
  | ClassDef pystr "expr list" "keyword list" "stmt list" "expr list" int
  | Return "expr option"
  | Assign "expr list" expr
  | AnnAssign expr expr "expr option"
  | Import "ast_alias list" int
  | ImportFrom "pystr option" "ast_alias list" int
  | Expr expr
  | Pass
  | OtherStmt "node list"
and module_ast = Module "stmt list"
and node =
    ModNode module_ast
  | StmtNode stmt
  | ExprNode expr
  | AliasNode ast_alias
  | ArgumentsNode arguments
  | ArgNode arg
  | KeywordNode keyword
  | CtxNode expr_context
  | OtherNode "node list"

text \<open>
  The fields of \<open>arguments\<close> are \<open>posonlyargs\<close>, \<open>args\<close>, \<open>vararg\<close>, \<open>kwonlyargs\<close>,
  \<open>kw_defaults\<close> (with \<open>None\<close> for a keyword-only parameter that has no default), \<open>kwarg\<close>
  and \<open>defaults\<close>; those of \<open>FunctionDef\<close> are \<open>name\<close>, \<open>args\<close>, \<open>body\<close>, \<open>decorator_list\<close>,
  \<open>returns\<close> and \<open>lineno\<close>; those of \<open>ClassDef\<close> are \<open>name\<close>, \<open>bases\<close>, \<open>keywords\<close>, \<open>body\<close>,
  \<open>decorator_list\<close> and \<open>lineno\<close>. \<open>plain_parameters\<close> is the \<open>arguments\<close> node of a function
  whose parameters are plain names.
\<close>

abbreviation plain_parameters :: "pystr list \<Rightarrow> arguments" where
  "plain_parameters names \<equiv> Arguments [] (map (\<lambda>nm. Arg nm None) names) None [] [] None []"

text \<open>
  \<open>ast.parse\<close> belongs to Python, not to the repository: it is a parameter of every
  function that calls it. It returns the tree of a module or raises an exception:
  \<open>SyntaxError\<close> for a text that is not a Python module, and other exceptions on other
  grounds, such as \<open>UnicodeEncodeError\<close> for a text with a surrogate code point, which
  cannot be encoded for the tokenizer.
\<close>

type_synonym parser = "pystr \<Rightarrow> error + module_ast"

definition ast_parse :: "parser \<Rightarrow> pystr \<Rightarrow> error + module_ast" where
  "ast_parse parse source = parse source"

text \<open>
  \<open>ast.iter_child_nodes\<close>: the child nodes in the order of the node's fields; a field
  that is \<open>None\<close> and a \<open>None\<close> inside a list yield nothing.
\<close>

fun opt_node :: "('a \<Rightarrow> node) \<Rightarrow> 'a option \<Rightarrow> node list" where
  "opt_node f None = []"
| "opt_node f (Some x) = [f x]"

fun iter_child_nodes :: "node \<Rightarrow> node list" where
  "iter_child_nodes (ModNode (Module body)) = map StmtNode body"
| "iter_child_nodes (StmtNode (FunctionDef name args body decorator_list returns lineno)) =
     ArgumentsNode args # map StmtNode body @ map ExprNode decorator_list @
     opt_node ExprNode returns"
| "iter_child_nodes (StmtNode (ClassDef name bases keywords body decorator_list lineno)) =
     map ExprNode bases @ map KeywordNode keywords @ map StmtNode body @
     map ExprNode decorator_list"
| "iter_child_nodes (StmtNode (Return v)) = opt_node ExprNode v"
| "iter_child_nodes (StmtNode (Assign targets v)) = map ExprNode targets @ [ExprNode v]"
| "iter_child_nodes (StmtNode (AnnAssign target annotation v)) =
     [ExprNode target, ExprNode annotation] @ opt_node ExprNode v"
| "iter_child_nodes (StmtNode (Import names lineno)) = map AliasNode names"
| "iter_child_nodes (StmtNode (ImportFrom module names lineno)) = map AliasNode names"
| "iter_child_nodes (StmtNode (Expr e)) = [ExprNode e]"
| "iter_child_nodes (StmtNode Pass) = []"
| "iter_child_nodes (StmtNode (OtherStmt children)) = children"
| "iter_child_nodes (ExprNode (Name ident ctx)) = [CtxNode ctx]"
| "iter_child_nodes (ExprNode (Constant v)) = []"
| "iter_child_nodes (ExprNode (Call func args keywords)) =
     ExprNode func # map ExprNode args @ map KeywordNode keywords"
| "iter_child_nodes (ExprNode (Attribute v attr ctx)) = [ExprNode v, CtxNode ctx]"
| "iter_child_nodes (ExprNode (OtherExpr children)) = children"
| "iter_child_nodes (AliasNode a) = []"
| "iter_child_nodes (ArgumentsNode (Arguments posonlyargs args vararg kwonlyargs kw_defaults kwarg
       defaults)) =
     map ArgNode posonlyargs @ map ArgNode args @ opt_node ArgNode vararg @
     map ArgNode kwonlyargs @ concat (map (opt_node ExprNode) kw_defaults) @
     opt_node ArgNode kwarg @ map ExprNode defaults"
| "iter_child_nodes (ArgNode (Arg name annotation)) = opt_node ExprNode annotation"
| "iter_child_nodes (KeywordNode (Keyword name v)) = [ExprNode v]"
| "iter_child_nodes (CtxNode ctx) = []"
| "iter_child_nodes (OtherNode children) = children"

text \<open>The number of nodes below and including a node; it bounds the walk.\<close>

fun expr_weight :: "expr \<Rightarrow> nat"
  and keyword_weight :: "keyword \<Rightarrow> nat"
  and arg_weight :: "arg \<Rightarrow> nat"
  and arguments_weight :: "arguments \<Rightarrow> nat"
  and stmt_weight :: "stmt \<Rightarrow> nat"
  and weight :: "node \<Rightarrow> nat" where
  "expr_weight (Name ident ctx) = 2"
| "expr_weight (Constant v) = 1"
| "expr_weight (Call func args keywords) =
     Suc (expr_weight func + sum_list (map expr_weight args) +
          sum_list (map keyword_weight keywords))"
| "expr_weight (Attribute v attr ctx) = Suc (Suc (expr_weight v))"
| "expr_weight (OtherExpr children) = Suc (sum_list (map weight children))"
| "keyword_weight (Keyword name v) = Suc (expr_weight v)"
| "arg_weight (Arg name annotation) =
     Suc (case annotation of None \<Rightarrow> 0 | Some e \<Rightarrow> expr_weight e)"
| "arguments_weight (Arguments posonlyargs args vararg kwonlyargs kw_defaults kwarg defaults) =
     Suc (sum_list (map arg_weight posonlyargs) + sum_list (map arg_weight args) +
          (case vararg of None \<Rightarrow> 0 | Some a \<Rightarrow> arg_weight a) +
          sum_list (map arg_weight kwonlyargs) +
          sum_list (map (\<lambda>d. case d of None \<Rightarrow> 0 | Some e \<Rightarrow> expr_weight e) kw_defaults) +
          (case kwarg of None \<Rightarrow> 0 | Some a \<Rightarrow> arg_weight a) +
          sum_list (map expr_weight defaults))"
| "stmt_weight (FunctionDef name args body decorator_list returns lineno) =
     Suc (arguments_weight args + sum_list (map stmt_weight body) +
          sum_list (map expr_weight decorator_list) +
          (case returns of None \<Rightarrow> 0 | Some e \<Rightarrow> expr_weight e))"
| "stmt_weight (ClassDef name bases keywords body decorator_list lineno) =
     Suc (sum_list (map expr_weight bases) + sum_list (map keyword_weight keywords) +
          sum_list (map stmt_weight body) + sum_list (map expr_weight decorator_list))"
| "stmt_weight (Return v) = Suc (case v of None \<Rightarrow> 0 | Some e \<Rightarrow> expr_weight e)"
| "stmt_weight (Assign targets v) = Suc (sum_list (map expr_weight targets) + expr_weight v)"
| "stmt_weight (AnnAssign target annotation v) =
     Suc (expr_weight target + expr_weight annotation +
          (case v of None \<Rightarrow> 0 | Some e \<Rightarrow> expr_weight e))"
| "stmt_weight (Import names lineno) = Suc (length names)"
| "stmt_weight (ImportFrom module names lineno) = Suc (length names)"
| "stmt_weight (Expr e) = Suc (expr_weight e)"
| "stmt_weight Pass = 1"
| "stmt_weight (OtherStmt children) = Suc (sum_list (map weight children))"
| "weight (ModNode m) = (case m of Module body \<Rightarrow> Suc (sum_list (map stmt_weight body)))"
| "weight (StmtNode s) = stmt_weight s"
| "weight (ExprNode e) = expr_weight e"
| "weight (AliasNode a) = 1"
| "weight (ArgumentsNode a) = arguments_weight a"
| "weight (ArgNode a) = arg_weight a"
| "weight (KeywordNode k) = keyword_weight k"
| "weight (CtxNode ctx) = 1"
| "weight (OtherNode children) = Suc (sum_list (map weight children))"

text \<open>
  \<^verbatim>\<open>
  def walk(node):
      todo = deque([node])
      while todo:
          node = todo.popleft()
          todo.extend(iter_child_nodes(node))
          yield node
  \<close>
  The walk is breadth first. It ends because every step replaces a node of the queue by
  its children, which together weigh less.
\<close>

function walk_todo :: "node list \<Rightarrow> node list" where
  "walk_todo [] = []"
| "walk_todo (n # todo) = n # walk_todo (todo @ iter_child_nodes n)"
  by pat_completeness auto
termination
proof (relation "measure (\<lambda>todo. sum_list (map weight todo))")
  show "wf (measure (\<lambda>todo. sum_list (map weight todo)))" by simp
next
  fix n :: node and todo :: "node list"
  have e: "sum_list (map weight (opt_node ExprNode v)) =
      (case v of None \<Rightarrow> 0 | Some e \<Rightarrow> expr_weight e)" for v
    by (cases v) simp_all
  have a: "sum_list (map weight (opt_node ArgNode v)) =
      (case v of None \<Rightarrow> 0 | Some x \<Rightarrow> arg_weight x)" for v
    by (cases v) simp_all
  have d: "sum_list (map weight (concat (map (opt_node ExprNode) ds))) =
      sum_list (map (\<lambda>d. case d of None \<Rightarrow> 0 | Some e \<Rightarrow> expr_weight e) ds)" for ds
    by (induction ds) (simp_all add: e)
  have "sum_list (map weight (iter_child_nodes n)) < weight n"
    by (induction n rule: iter_child_nodes.induct)
      (simp_all add: comp_def sum_list_triv e a d)
  then show "(todo @ iter_child_nodes n, n # todo) \<in> measure (\<lambda>todo. sum_list (map weight todo))"
    by simp
qed

definition walk :: "node \<Rightarrow> node list" where
  "walk tree = walk_todo [tree]"

section \<open>Case conversion (core/utils.py)\<close>

text \<open>
  \<^verbatim>\<open>
  s1 = re.sub(r'([A-Z])', r'_\1', text)
  s2 = re.sub(r'[ \-]+', '_', s1)
  return re.sub(r'_+', '_', s2).strip('_').lower()
  \<close>
\<close>

definition capital_pattern :: regex where
  "capital_pattern = Grp (Cls [(65, 90)])"

definition blank_pattern :: regex where
  "blank_pattern = Rep (Cls [(32, 32), (45, 45)]) 1 True"

definition underscores_pattern :: regex where
  "underscores_pattern = Rep (Chr 95) 1 True"

definition to_snake_case :: "pystr \<Rightarrow> pystr" where
  "to_snake_case text =
     (let s1 = re_sub capital_pattern (\<lambda>g. 95 # g) text;
          s2 = re_sub blank_pattern (\<lambda>g. [95]) s1
      in lower (strip_chars [95] (re_sub underscores_pattern (\<lambda>g. [95]) s2)))"

text \<open>
  \<^verbatim>\<open>
  snake = to_snake_case(text)
  return ''.join(word.capitalize() for word in snake.split('_'))
  \<close>
\<close>

definition to_pascal_case :: "pystr \<Rightarrow> pystr" where
  "to_pascal_case text = concat (map capitalize (split 95 (to_snake_case text)))"

text \<open>
  The strings of the round trip: one or more words joined by underscores, each word a
  lower-case letter followed by lower-case letters and digits.
\<close>

fun snake_word :: "pystr \<Rightarrow> bool" where
  "snake_word [] = False"
| "snake_word (c # cs) = (is_lower c \<and> list_all (\<lambda>x. is_lower x \<or> is_digit x) cs)"

definition snake_words :: "pystr list \<Rightarrow> bool" where
  "snake_words ws \<longleftrightarrow> ws \<noteq> [] \<and> list_all snake_word ws"

text \<open>
  Auxiliary notions for the proofs: a word without underscores, a text in which no two
  underscores are neighbours, and the text with an underscore put before each capital.
\<close>

definition plain_word :: "pystr \<Rightarrow> bool" where
  "plain_word w \<longleftrightarrow> w \<noteq> [] \<and> 95 \<notin> set w"

fun single_underscores :: "pystr \<Rightarrow> bool" where
  "single_underscores [] = True"
| "single_underscores [c] = True"
| "single_underscores (c # d # rest) = (\<not> (c = 95 \<and> d = 95) \<and> single_underscores (d # rest))"

definition underscore_capitals :: "pystr \<Rightarrow> pystr" where
  "underscore_capitals t = concat (map (\<lambda>c. if is_upper c then [95, c] else [c]) t)"

section \<open>Boundary grouping (module\_detector.py)\<close>

text \<open>
  \<^verbatim>\<open>
  grouped = []
  current_group = []
  for boundary in boundaries:
      if not current_group or boundary - current_group[-1] < proximity_threshold:
          current_group.append(boundary)
      else:
          grouped.append(current_group)
          current_group = [boundary]
  if current_group:
      grouped.append(current_group)
  return grouped
  \<close>
  The loop carries \<open>grouped\<close> and \<open>current_group\<close>. \<open>current_group[-1]\<close> is only read
  when the group is not empty, so \<open>last\<close> is never applied to \<open>[]\<close>.
\<close>

fun group_loop :: "int \<Rightarrow> int list \<Rightarrow> int list list \<Rightarrow> int list \<Rightarrow> int list list \<times> int list" where
  "group_loop t [] grouped current_group = (grouped, current_group)"
| "group_loop t (boundary # rest) grouped current_group =
     (if current_group = [] \<or> boundary - last current_group < t
      then group_loop t rest grouped (current_group @ [boundary])
      else group_loop t rest (grouped @ [current_group]) [boundary])"

definition close_group :: "int list list \<times> int list \<Rightarrow> int list list" where
  "close_group p =
     (case p of (grouped, current_group) \<Rightarrow>
        if current_group \<noteq> [] then grouped @ [current_group] else grouped)"

definition group_related_boundaries :: "int list \<Rightarrow> int \<Rightarrow> int list list" where
  "group_related_boundaries boundaries proximity_threshold =
     close_group (group_loop proximity_threshold boundaries [] [])"

text \<open>
  What the grouping is meant to be, in the words of the specification: a cut of the list
  into consecutive non-empty groups such that two neighbours inside a group are closer
  than the threshold and the step from one group to the next is at least the threshold.
\<close>

fun close_within :: "int \<Rightarrow> int list \<Rightarrow> bool" where
  "close_within t (a # b # rest) = (b - a < t \<and> close_within t (b # rest))"
| "close_within t _ = True"

fun split_between :: "int \<Rightarrow> int list list \<Rightarrow> bool" where
  "split_between t (g # h # rest) = (t \<le> hd h - last g \<and> split_between t (h # rest))"
| "split_between t _ = True"

definition proximity_grouping :: "int \<Rightarrow> int list \<Rightarrow> int list list \<Rightarrow> bool" where
  "proximity_grouping t bs gs \<longleftrightarrow>
     concat gs = bs \<and> [] \<notin> set gs \<and> list_all (close_within t) gs \<and> split_between t gs"

section \<open>Module detection (analyzer/module\_detector.py)\<close>

text \<open>
  A detected module is a dictionary with the keys \<open>name\<close>, \<open>start_line\<close>, \<open>end_line\<close> and
  \<open>content\<close>; the semantic stage adds \<open>purpose\<close>, \<open>functions\<close>, \<open>classes\<close> and, when a
  docstring is found, \<open>docstring\<close> (\<open>ModuleInfo\<close> in core/types.py, declared with
  \<open>total=False\<close>). The \<open>docstring\<close> entry of a function or class signature goes through
  \<open>inspect.cleandoc\<close> and is left out.
\<close>

record function_info =
  fn_name :: pystr
  fn_lineno :: int
  fn_args :: "pystr list"

record class_info =
  cls_name :: pystr
  cls_lineno :: int
  cls_methods :: "pystr list"

record module_info =
  name :: pystr
  start_line :: int
  end_line :: int
  content :: pystr
  purpose :: "pystr option"
  docstring :: "pystr option"
  functions_list :: "function_info list option"
  classes_list :: "class_info list option"

text \<open>
  \<open>COMPILED_BOUNDARY_PATTERNS\<close> is imported from core/config.py, which is not among the
  sources; the functions below take the list of patterns as their first argument.
  analyzer.py, the single-file form of the same analyser, spells the table out:
  \<^verbatim>\<open>
  r"# [\-<U+2500><U+2550>]{2,}.*?[\-<U+2500><U+2550>]{2,}"
  r"# <U+256D>.*?<U+256E>\s*# <U+2502>.*?<U+2502>\s*# <U+2570>.*?<U+256F>"
  r"#{3,}\s*([A-Za-z0-9_ ]+)\s*#{3,}"
  r"class [A-Z][a-zA-Z0-9]*(\(.*?\))?:"
  r"@\w+\s*(\(.*?\))?\s*\n+def "
  \<close>
  The box-drawing characters are written \<open><U+2500>\<close> here, with the code point in
  hexadecimal: U+2500 is 9472, U+2550 is 9552, U+2502 is 9474, U+256D is 9581, U+256E is
  9582, U+2570 is 9584 and U+256F is 9583.
\<close>

definition rule_chars :: regex where
  "rule_chars = Cls [(45, 45), (9472, 9472), (9552, 9552)]"

definition call_suffix :: regex where
  "call_suffix = Opt (Grp (seqs [Chr 40, Rep Dot 0 False, Chr 41]))"

definition MODULE_BOUNDARY_PATTERNS :: "regex list" where
  "MODULE_BOUNDARY_PATTERNS =
     [seqs [lit (u ''# ''), Rep rule_chars 2 True, Rep Dot 0 False, Rep rule_chars 2 True],
      seqs [lit (u ''# ''), Chr 9581, Rep Dot 0 False, Chr 9582, Rep Space 0 True,
            lit (u ''# ''), Chr 9474, Rep Dot 0 False, Chr 9474, Rep Space 0 True,
            lit (u ''# ''), Chr 9584, Rep Dot 0 False, Chr 9583],
      seqs [Rep (Chr 35) 3 True, Rep Space 0 True,
            Grp (Rep (Cls [(65, 90), (97, 122), (48, 57), (95, 95), (32, 32)]) 1 True),
            Rep Space 0 True, Rep (Chr 35) 3 True],
      seqs [lit (u ''class ''), Cls [(65, 90)], Rep (Cls [(97, 122), (65, 90), (48, 57)]) 0 True,
            call_suffix, Chr 58],
      seqs [Chr 64, Rep Word 1 True, Rep Space 0 True, call_suffix, Rep Space 0 True,
            Rep (Chr 10) 1 True, lit (u ''def '')]]"

text \<open>
  \<^verbatim>\<open>
  boundaries = []
  for i, line in enumerate(lines):
      for pattern in COMPILED_BOUNDARY_PATTERNS:
          if pattern.match(line):
              boundaries.append(i)
  return boundaries
  \<close>
  A line is recorded once for every pattern that matches it.
\<close>

definition find_section_boundaries :: "regex list \<Rightarrow> pystr list \<Rightarrow> int list" where
  "find_section_boundaries patterns lines =
     concat (map (\<lambda>(i, line). map (\<lambda>pattern. int i) (filter (\<lambda>pattern. re_match pattern line) patterns))
               (enumerate 0 lines))"

text \<open>
  \<^verbatim>\<open>
  class_funcs = []
  for node in ast.walk(tree):
      if isinstance(node, (ast.ClassDef, ast.FunctionDef)) and not node.name.startswith('_'):
          # Check if this is a top-level definition
          if isinstance(ast.iter_fields(tree), ast.Module) or any(
              isinstance(parent, ast.Module) for parent in ast.iter_ancestors(node)
          ):
              class_funcs.append(node.lineno - 1)  # Convert to 0-based index
  return class_funcs
  \<close>
  \<open>ast.iter_fields(tree)\<close> is a generator, never an instance of \<open>ast.Module\<close>, so the
  first test is false and the second one is evaluated. The \<open>ast\<close> module has no attribute
  \<open>iter_ancestors\<close>: looking it up raises \<open>AttributeError\<close> before any ancestor is seen.
  (analyzer.py reads \<open>node.parent\<close> at the same place, an attribute that \<open>ast.parse\<close> does
  not set, with the same outcome.)
\<close>

definition iter_fields_is_module :: "node \<Rightarrow> bool" where
  "iter_fields_is_module tree = False"

definition ast_iter_ancestors :: "node \<Rightarrow> error + node list" where
  "ast_iter_ancestors n = Inl AttributeError"

fun class_or_function :: "node \<Rightarrow> (pystr \<times> int) option" where
  "class_or_function (StmtNode (ClassDef nm bases keywords body decorator_list lineno)) =
     Some (nm, lineno)"
| "class_or_function (StmtNode (FunctionDef nm args body decorator_list returns lineno)) =
     Some (nm, lineno)"
| "class_or_function _ = None"

fun is_module :: "node \<Rightarrow> bool" where
  "is_module (ModNode m) = True"
| "is_module _ = False"

fun definition_loop :: "node \<Rightarrow> node list \<Rightarrow> int list \<Rightarrow> error + int list" where
  "definition_loop tree [] class_funcs = Inr class_funcs"
| "definition_loop tree (n # rest) class_funcs =
     (case class_or_function n of
        None \<Rightarrow> definition_loop tree rest class_funcs
      | Some (nm, lineno) \<Rightarrow>
          if \<not> startswith nm (u ''_'') then
            if iter_fields_is_module tree then definition_loop tree rest (class_funcs @ [lineno - 1])
            else (case ast_iter_ancestors n of
                    Inl e \<Rightarrow> Inl e
                  | Inr parents \<Rightarrow>
                      if list_ex is_module parents
                      then definition_loop tree rest (class_funcs @ [lineno - 1])
                      else definition_loop tree rest class_funcs)
          else definition_loop tree rest class_funcs)"

definition find_definition_boundaries :: "node \<Rightarrow> error + int list" where
  "find_definition_boundaries tree = definition_loop tree (walk tree) []"

text \<open>
  \<^verbatim>\<open>
  class_match = re.search(r"class ([A-Z][a-zA-Z0-9_]*)", content)
  if class_match:
      return class_match.group(1).lower()
  header_match = re.search(r"# [<U+2502><U+256D><U+2570>][ ]*([A-Za-z ]+?)[ ]*[<U+2502><U+256E><U+256F>]", content)
  if header_match:
      section_name = header_match.group(1).strip().lower().replace(' ', '_')
      return section_name
  func_match = re.search(r"def ([a-z][a-zA-Z0-9_]*)\(", content)
  if func_match:
      return func_match.group(1)
  return default
  \<close>
\<close>

definition class_pattern :: regex where
  "class_pattern =
     seqs [lit (u ''class ''),
           Grp (seqs [Cls [(65, 90)], Rep (Cls [(97, 122), (65, 90), (48, 57), (95, 95)]) 0 True])]"

definition header_pattern :: regex where
  "header_pattern =
     seqs [lit (u ''# ''), Cls [(9474, 9474), (9581, 9581), (9584, 9584)], Rep (Chr 32) 0 True,
           Grp (Rep (Cls [(65, 90), (97, 122), (32, 32)]) 1 False),
           Rep (Chr 32) 0 True, Cls [(9474, 9474), (9582, 9582), (9583, 9583)]]"

definition func_pattern :: regex where
  "func_pattern =
     seqs [lit (u ''def ''),
           Grp (seqs [Cls [(97, 122)], Rep (Cls [(97, 122), (65, 90), (48, 57), (95, 95)]) 0 True]),
           Chr 40]"

definition extract_module_name :: "pystr \<Rightarrow> pystr \<Rightarrow> pystr" where
  "extract_module_name text default_name =
     (case re_search class_pattern text of
        Some class_match \<Rightarrow> lower (group1 class_match)
      | None \<Rightarrow>
          (case re_search header_pattern text of
             Some header_match \<Rightarrow> replace_chr 32 95 (lower (strip (group1 header_match)))
           | None \<Rightarrow>
               (case re_search func_pattern text of
                  Some func_match \<Rightarrow> group1 func_match
                | None \<Rightarrow> default_name)))"

text \<open>
  \<^verbatim>\<open>
  while start_line > 0:
      prev_line = lines[start_line - 1].strip()
      if not prev_line or any(pattern.match(prev_line) for pattern in COMPILED_BOUNDARY_PATTERNS):
          break
      start_line -= 1
  return start_line
  \<close>
\<close>

function find_module_start :: "regex list \<Rightarrow> int \<Rightarrow> pystr list \<Rightarrow> error + int" where
  "find_module_start patterns start_idx lines =
     (if 0 < start_idx then
        (case py_index lines (start_idx - 1) of
           Inl e \<Rightarrow> Inl e
         | Inr l \<Rightarrow>
             if strip l = [] \<or> list_ex (\<lambda>pattern. re_match pattern (strip l)) patterns
             then Inr start_idx
             else find_module_start patterns (start_idx - 1) lines)
      else Inr start_idx)"
  by pat_completeness auto
termination
  by (relation "measure (\<lambda>(patterns, start_idx, lines). nat start_idx)") auto

text \<open>
  \<^verbatim>\<open>
  while end_line < len(lines) - 1:
      next_line = lines[end_line + 1].strip()
      if any(pattern.match(next_line) for pattern in COMPILED_BOUNDARY_PATTERNS):
          break
      if not next_line and end_line + 2 < len(lines) and not lines[end_line + 2].strip():
          break
      end_line += 1
  return end_line
  \<close>
\<close>

definition blank_line_at :: "pystr list \<Rightarrow> int \<Rightarrow> error + bool" where
  "blank_line_at lines i =
     (case py_index lines i of Inl e \<Rightarrow> Inl e | Inr l \<Rightarrow> Inr (strip l = []))"

function find_module_end :: "regex list \<Rightarrow> int \<Rightarrow> pystr list \<Rightarrow> error + int" where
  "find_module_end patterns end_idx lines =
     (if end_idx < int (length lines) - 1 then
        (case py_index lines (end_idx + 1) of
           Inl e \<Rightarrow> Inl e
         | Inr l \<Rightarrow>
             if list_ex (\<lambda>pattern. re_match pattern (strip l)) patterns then Inr end_idx
             else if strip l = [] \<and> end_idx + 2 < int (length lines) then
               (case blank_line_at lines (end_idx + 2) of
                  Inl e \<Rightarrow> Inl e
                | Inr blank \<Rightarrow>
                    if blank then Inr end_idx
                    else find_module_end patterns (end_idx + 1) lines)
             else find_module_end patterns (end_idx + 1) lines)
      else Inr end_idx)"
  by pat_completeness auto
termination
  by (relation "measure (\<lambda>(patterns, end_idx, lines). nat (int (length lines) - end_idx))") auto

text \<open>
  \<^verbatim>\<open>
  modules = []
  for i, group in enumerate(grouped_boundaries):
      start_line = group[0]
      end_line = group[-1]
      start_line = _find_module_start(start_line, lines)
      end_line = _find_module_end(end_line, lines)
      content = '\n'.join(lines[start_line:end_line + 1])
      name = _extract_module_name(content, f"module_{i}")
      modules.append({"name": name, "start_line": start_line,
                      "end_line": end_line, "content": content})
  return modules
  \<close>
\<close>

definition new_module :: "pystr \<Rightarrow> int \<Rightarrow> int \<Rightarrow> pystr \<Rightarrow> module_info" where
  "new_module nm first_line last_line text =
     \<lparr>name = nm, start_line = first_line, end_line = last_line, content = text,
      purpose = None, docstring = None, functions_list = None, classes_list = None\<rparr>"

fun create_loop ::
  "regex list \<Rightarrow> pystr list \<Rightarrow> (nat \<times> int list) list \<Rightarrow> module_info list \<Rightarrow> error + module_info list"
where
  "create_loop patterns lines [] modules = Inr modules"
| "create_loop patterns lines ((i, grp) # rest) modules =
     (case py_index grp 0 of
        Inl e \<Rightarrow> Inl e
      | Inr first_boundary \<Rightarrow>
     (case py_index grp (- 1) of
        Inl e \<Rightarrow> Inl e
      | Inr last_boundary \<Rightarrow>
     (case find_module_start patterns first_boundary lines of
        Inl e \<Rightarrow> Inl e
      | Inr first_line \<Rightarrow>
     (case find_module_end patterns last_boundary lines of
        Inl e \<Rightarrow> Inl e
      | Inr last_line \<Rightarrow>
          (let text = join [10] (py_slice lines first_line (last_line + 1));
               nm = extract_module_name text (u ''module_'' @ digits i)
           in create_loop patterns lines rest
                (modules @ [new_module nm first_line last_line text]))))))"

definition create_module_definitions ::
  "regex list \<Rightarrow> int list list \<Rightarrow> pystr list \<Rightarrow> error + module_info list" where
  "create_module_definitions patterns grouped_boundaries lines =
     create_loop patterns lines (enumerate 0 grouped_boundaries) []"

text \<open>
  \<^verbatim>\<open>
  lines = source_code.split('\n')
  tree = ast.parse(source_code)
  section_boundaries = _find_section_boundaries(lines)
  class_funcs = _find_definition_boundaries(tree)
  all_boundaries = sorted(set(section_boundaries + class_funcs))
  grouped_boundaries = _group_related_boundaries(all_boundaries)
  return _create_module_definitions(grouped_boundaries, lines)
  \<close>
\<close>

definition detect_module_boundaries :: "regex list \<Rightarrow> parser \<Rightarrow> pystr \<Rightarrow> error + module_info list" where
  "detect_module_boundaries patterns parse source_code =
     (let lines = split 10 source_code in
      case ast_parse parse source_code of
        Inl e \<Rightarrow> Inl e
      | Inr tree \<Rightarrow>
          (case find_definition_boundaries (ModNode tree) of
             Inl e \<Rightarrow> Inl e
           | Inr class_funcs \<Rightarrow>
               (let section_boundaries = find_section_boundaries patterns lines;
                    all_boundaries = sort (remdups (section_boundaries @ class_funcs));
                    grouped_boundaries = group_related_boundaries all_boundaries 10
                in create_module_definitions patterns grouped_boundaries lines)))"

section \<open>Dependencies (analyzer/dependency\_analyzer.py)\<close>

text \<open>
  A \<open>networkx.DiGraph\<close> as far as the analyser uses it: the node names in the order of
  their insertion and the edges. \<open>add_node\<close> of a name that is present keeps the graph's
  shape, \<open>add_edge\<close> inserts missing end points. The \<open>info\<close> attribute of a node is a
  reference to the module dictionary and is not part of the model.
\<close>

record digraph =
  nodes :: "pystr list"
  edges :: "(pystr \<times> pystr) list"

definition empty_graph :: digraph where
  "empty_graph = \<lparr>nodes = [], edges = []\<rparr>"

definition add_node :: "pystr \<Rightarrow> digraph \<Rightarrow> digraph" where
  "add_node n g = (if n \<in> set (nodes g) then g else g\<lparr>nodes := nodes g @ [n]\<rparr>)"

definition add_edge :: "pystr \<Rightarrow> pystr \<Rightarrow> digraph \<Rightarrow> digraph" where
  "add_edge a b g =
     (let g' = add_node b (add_node a g)
      in if (a, b) \<in> set (edges g') then g' else g'\<lparr>edges := edges g' @ [(a, b)]\<rparr>)"

text \<open>
  \<^verbatim>\<open>
  for node in ast.walk(tree):
      if isinstance(node, ast.Name) and isinstance(node.ctx, ast.Load):
          referenced_names.add(node.id)
      elif isinstance(node, ast.Call) and isinstance(node.func, ast.Name):
          referenced_names.add(node.func.id)
      elif isinstance(node, ast.Attribute) and isinstance(node.ctx, ast.Load):
          if isinstance(node.value, ast.Name):
              referenced_names.add(node.value.id)
  \<close>
\<close>

fun referenced_at :: "node \<Rightarrow> pystr list" where
  "referenced_at (ExprNode (Name ident ctx)) = (if ctx = Load then [ident] else [])"
| "referenced_at (ExprNode (Call func args keywords)) =
     (case func of Name ident ctx \<Rightarrow> [ident] | _ \<Rightarrow> [])"
| "referenced_at (ExprNode (Attribute v attr ctx)) =
     (if ctx = Load then (case v of Name ident c \<Rightarrow> [ident] | _ \<Rightarrow> []) else [])"
| "referenced_at _ = []"

definition extract_referenced_names :: "node \<Rightarrow> pystr set" where
  "extract_referenced_names tree = set (concat (map referenced_at (walk tree)))"

text \<open>
  \<^verbatim>\<open>
  for node in ast.walk(tree):
      if isinstance(node, ast.FunctionDef):
          defined_names.add(node.name)
      elif isinstance(node, ast.ClassDef):
          defined_names.add(node.name)
      elif isinstance(node, ast.Assign):
          for target in node.targets:
              if isinstance(target, ast.Name):
                  defined_names.add(target.id)
      elif isinstance(node, ast.AnnAssign) and isinstance(node.target, ast.Name):
          defined_names.add(node.target.id)
  \<close>
\<close>

fun name_id :: "expr \<Rightarrow> pystr list" where
  "name_id (Name ident ctx) = [ident]"
| "name_id _ = []"

fun defined_at :: "node \<Rightarrow> pystr list" where
  "defined_at (StmtNode (FunctionDef nm args body decorator_list returns lineno)) = [nm]"
| "defined_at (StmtNode (ClassDef nm bases keywords body decorator_list lineno)) = [nm]"
| "defined_at (StmtNode (Assign targets v)) = concat (map name_id targets)"
| "defined_at (StmtNode (AnnAssign target annotation v)) = name_id target"
| "defined_at _ = []"

definition extract_defined_names :: "node \<Rightarrow> pystr set" where
  "extract_defined_names tree = set (concat (map defined_at (walk tree)))"

text \<open>
  \<^verbatim>\<open>
  dependencies = nx.DiGraph()
  for module in modules:
      dependencies.add_node(module["name"], info=module)
  for i, module in enumerate(modules):
      module_ast = ast.parse(module["content"])
      referenced_names = extract_referenced_names(module_ast)
      for j, other_module in enumerate(modules):
          if i == j:
              continue
          other_ast = ast.parse(other_module["content"])
          defined_names = extract_defined_names(other_ast)
          if referenced_names.intersection(defined_names):
              dependencies.add_edge(module["name"], other_module["name"])
  return dependencies
  \<close>
  Neither call of \<open>ast.parse\<close> stands inside a \<open>try\<close>: a fragment that does not parse ends
  the function with the exception that \<open>ast.parse\<close> raised, a \<open>SyntaxError\<close> as a rule.
\<close>

fun edge_loop ::
  "parser \<Rightarrow> pystr set \<Rightarrow> nat \<Rightarrow> module_info \<Rightarrow> (nat \<times> module_info) list \<Rightarrow> digraph \<Rightarrow> error + digraph"
where
  "edge_loop parse referenced_names i m [] g = Inr g"
| "edge_loop parse referenced_names i m ((j, other_module) # rest) g =
     (if i = j then edge_loop parse referenced_names i m rest g
      else
        (case ast_parse parse (content other_module) of
           Inl e \<Rightarrow> Inl e
         | Inr other_ast \<Rightarrow>
             if referenced_names \<inter> extract_defined_names (ModNode other_ast) \<noteq> {}
             then edge_loop parse referenced_names i m rest (add_edge (name m) (name other_module) g)
             else edge_loop parse referenced_names i m rest g))"

fun module_loop ::
  "parser \<Rightarrow> module_info list \<Rightarrow> (nat \<times> module_info) list \<Rightarrow> digraph \<Rightarrow> error + digraph"
where
  "module_loop parse modules [] g = Inr g"
| "module_loop parse modules ((i, m) # rest) g =
     (case ast_parse parse (content m) of
        Inl e \<Rightarrow> Inl e
      | Inr module_ast \<Rightarrow>
          (case edge_loop parse (extract_referenced_names (ModNode module_ast)) i m
                  (enumerate 0 modules) g of
             Inl e \<Rightarrow> Inl e
           | Inr g' \<Rightarrow> module_loop parse modules rest g'))"

definition build_dependency_graph :: "parser \<Rightarrow> module_info list \<Rightarrow> error + digraph" where
  "build_dependency_graph parse modules =
     module_loop parse modules (enumerate 0 modules)
       (foldl (\<lambda>g m. add_node (name m) g) empty_graph modules)"

section \<open>Semantic purpose (analyzer/semantic\_analyzer.py)\<close>

text \<open>
  \<open>MODULE_PURPOSE_INDICATORS\<close> is imported from core/config.py as well and is an argument
  of \<open>infer_purpose\<close>; this is the table of analyzer.py, in the order of the dictionary.
\<close>

definition MODULE_PURPOSE_INDICATORS :: "(pystr \<times> pystr list) list" where
  "MODULE_PURPOSE_INDICATORS =
     [(u ''util'', [u ''utility'', u ''helper'', u ''tool'', u ''common'']),
      (u ''model'', [u ''model'', u ''entity'', u ''data class'', u ''schema'', u ''structure'']),
      (u ''service'', [u ''service'', u ''manager'', u ''handler'', u ''processor'']),
      (u ''controller'', [u ''controller'', u ''view'', u ''endpoint'', u ''route'']),
      (u ''config'', [u ''config'', u ''setting'', u ''parameter'', u ''environment''])]"

text \<open>
  \<^verbatim>\<open>
  for purpose, indicators in MODULE_PURPOSE_INDICATORS.items():
      for indicator in indicators:
          if indicator in name.lower():
              return f"{purpose.title()} module for {name.replace('_', ' ')}"
  if "class" in content and "def __init__" in content:
      return f"Defines the {name.replace('_', ' ').title()} entity"
  elif content.count("def ") > 3:
      return f"Provides {name.replace('_', ' ')} functionality"
  return f"Handles {name.replace('_', ' ')} operations"
  \<close>
\<close>

definition infer_purpose :: "(pystr \<times> pystr list) list \<Rightarrow> pystr \<Rightarrow> pystr \<Rightarrow> pystr" where
  "infer_purpose indicator_table text nm =
     (case List.find (\<lambda>(purpose_key, indicators).
                        list_ex (\<lambda>indicator. contains indicator (lower nm)) indicators)
             indicator_table of
        Some (purpose_key, indicators) \<Rightarrow>
          title purpose_key @ u '' module for '' @ replace_chr 95 32 nm
      | None \<Rightarrow>
          if contains (u ''class'') text \<and> contains (u ''def __init__'') text
          then u ''Defines the '' @ title (replace_chr 95 32 nm) @ u '' entity''
          else if 3 < count_sub (u ''def '') text
          then u ''Provides '' @ replace_chr 95 32 nm @ u '' functionality''
          else u ''Handles '' @ replace_chr 95 32 nm @ u '' operations'')"

text \<open>
  \<^verbatim>\<open>
  for node in ast.iter_child_nodes(tree):
      if isinstance(node, ast.FunctionDef):
          functions.append({"name": node.name, "lineno": node.lineno,
                            "args": [arg.arg for arg in node.args.args], ...})
  \<close>
  and likewise for classes, whose methods are the function definitions of the class body.
\<close>

fun arguments_args :: "arguments \<Rightarrow> arg list" where
  "arguments_args (Arguments posonlyargs args vararg kwonlyargs kw_defaults kwarg defaults) = args"

fun function_at :: "node \<Rightarrow> function_info list" where
  "function_at (StmtNode (FunctionDef nm args body decorator_list returns lineno)) =
     [\<lparr>fn_name = nm, fn_lineno = lineno, fn_args = map arg_name (arguments_args args)\<rparr>]"
| "function_at _ = []"

definition extract_functions :: "node \<Rightarrow> function_info list" where
  "extract_functions tree = concat (map function_at (iter_child_nodes tree))"

fun method_name :: "stmt \<Rightarrow> pystr list" where
  "method_name (FunctionDef nm args body decorator_list returns lineno) = [nm]"
| "method_name _ = []"

fun class_at :: "node \<Rightarrow> class_info list" where
  "class_at (StmtNode (ClassDef nm bases keywords body decorator_list lineno)) =
     [\<lparr>cls_name = nm, cls_lineno = lineno, cls_methods = concat (map method_name body)\<rparr>]"
| "class_at _ = []"

definition extract_classes :: "node \<Rightarrow> class_info list" where
  "extract_classes tree = concat (map class_at (iter_child_nodes tree))"

text \<open>
  \<^verbatim>\<open>
  for module in modules:
      content = module["content"]
      module_ast = ast.parse(content)
      module["functions"] = extract_functions(module_ast)
      module["classes"] = extract_classes(module_ast)
      docstring_match = re.search(r'"""(.*?)"""', content, re.DOTALL)
      if docstring_match:
          docstring = docstring_match.group(1).strip()
          purpose = docstring.split('\n')[0].strip()
          module["purpose"] = purpose
          module["docstring"] = docstring
      else:
          comment_match = re.search(r'# ([A-Za-z].*)', content)
          if comment_match:
              module["purpose"] = comment_match.group(1).strip()
          else:
              inferred_purpose = infer_purpose(content, module["name"])
              module["purpose"] = inferred_purpose
  return modules
  \<close>
  The double quote is code point 34.
\<close>

definition docstring_pattern :: regex where
  "docstring_pattern = seqs [lit [34, 34, 34], Grp (Rep DotAll 0 False), lit [34, 34, 34]]"

definition comment_pattern :: regex where
  "comment_pattern =
     seqs [lit (u ''# ''), Grp (seqs [Cls [(65, 90), (97, 122)], Rep Dot 0 True])]"

definition first_line :: "pystr \<Rightarrow> pystr" where
  "first_line s = (case split 10 s of [] \<Rightarrow> [] | l # _ \<Rightarrow> l)"

definition describe_module :: "(pystr \<times> pystr list) list \<Rightarrow> module_info \<Rightarrow> module_info" where
  "describe_module indicator_table m =
     (case re_search docstring_pattern (content m) of
        Some docstring_match \<Rightarrow>
          (let doc = strip (group1 docstring_match)
           in m\<lparr>purpose := Some (strip (first_line doc)), docstring := Some doc\<rparr>)
      | None \<Rightarrow>
          (case re_search comment_pattern (content m) of
             Some comment_match \<Rightarrow> m\<lparr>purpose := Some (strip (group1 comment_match))\<rparr>
           | None \<Rightarrow> m\<lparr>purpose := Some (infer_purpose indicator_table (content m) (name m))\<rparr>))"

fun extract_semantic_purpose ::
  "(pystr \<times> pystr list) list \<Rightarrow> parser \<Rightarrow> module_info list \<Rightarrow> error + module_info list" where
  "extract_semantic_purpose indicator_table parse [] = Inr []"
| "extract_semantic_purpose indicator_table parse (m # rest) =
     (case ast_parse parse (content m) of
        Inl e \<Rightarrow> Inl e
      | Inr module_ast \<Rightarrow>
          (let m' = describe_module indicator_table
                      (m\<lparr>functions_list := Some (extract_functions (ModNode module_ast)),
                         classes_list := Some (extract_classes (ModNode module_ast))\<rparr>)
           in case extract_semantic_purpose indicator_table parse rest of
                Inl e \<Rightarrow> Inl e
              | Inr rest' \<Rightarrow> Inr (m' # rest')))"

section \<open>Imports (analyzer/import\_analyzer.py)\<close>

text \<open>
  \<^verbatim>\<open>
  tree = ast.parse(source_code)
  symbol_table = {}
  for node in ast.walk(tree):
      if isinstance(node, ast.Import):
          for name in node.names:
              symbol_table[name.asname or name.name] = {
                  "type": "import", "source": name.name,
                  "alias": name.asname, "lineno": node.lineno}
      elif isinstance(node, ast.ImportFrom):
          module = node.module
          for name in node.names:
              symbol_table[name.asname or name.name] = {
                  "type": "import_from", "source": module, "name": name.name,
                  "alias": name.asname, "lineno": node.lineno}
  return symbol_table
  \<close>
  The two shapes of an entry are the two constructors; the \<open>type\<close> key is the
  constructor. \<open>a or b\<close> is \<open>b\<close> when \<open>a\<close> is \<open>None\<close> or empty.
\<close>

datatype symbol_entry =
    ImportEntry (entry_source: pystr) (entry_alias: "pystr option") (entry_lineno: int)
  | ImportFromEntry (entry_module: "pystr option") (entry_name: pystr)
      (entry_alias: "pystr option") (entry_lineno: int)

definition local_name :: "ast_alias \<Rightarrow> pystr" where
  "local_name a =
     (case asname a of None \<Rightarrow> alias_name a | Some s \<Rightarrow> if s = [] then alias_name a else s)"

fun import_entries :: "node \<Rightarrow> (pystr \<times> symbol_entry) list" where
  "import_entries (StmtNode (Import names line)) =
     map (\<lambda>a. (local_name a, ImportEntry (alias_name a) (asname a) line)) names"
| "import_entries (StmtNode (ImportFrom module names line)) =
     map (\<lambda>a. (local_name a, ImportFromEntry module (alias_name a) (asname a) line)) names"
| "import_entries _ = []"

definition store_all :: "('k \<rightharpoonup> 'v) \<Rightarrow> ('k \<times> 'v) list \<Rightarrow> ('k \<rightharpoonup> 'v)" where
  "store_all table entries = foldl (\<lambda>t (k, v). t(k \<mapsto> v)) table entries"

definition analyze_imports :: "parser \<Rightarrow> pystr \<Rightarrow> error + (pystr \<rightharpoonup> symbol_entry)" where
  "analyze_imports parse source_code =
     (case ast_parse parse source_code of
        Inl e \<Rightarrow> Inl e
      | Inr tree \<Rightarrow> Inr (store_all Map.empty (concat (map import_entries (walk (ModNode tree))))))"

section \<open>Used symbols (transformer/import\_manager.py)\<close>

text \<open>
  \<^verbatim>\<open>
  try:
      tree = ast.parse(content)
      symbols = set()
      for node in ast.walk(tree):
          if isinstance(node, ast.Name) and isinstance(node.ctx, ast.Load):
              symbols.add(node.id)
          elif isinstance(node, ast.Call) and isinstance(node.func, ast.Name):
              symbols.add(node.func.id)
      return symbols
  except SyntaxError:
      pattern = r'\b([a-zA-Z_][a-zA-Z0-9_]*)\b'
      return set(re.findall(pattern, content))
  \<close>
  The body of the \<open>try\<close> is a computation that may raise; the handler takes over for
  \<open>SyntaxError\<close> and lets any other exception pass.
\<close>

fun used_at :: "node \<Rightarrow> pystr list" where
  "used_at (ExprNode (Name ident ctx)) = (if ctx = Load then [ident] else [])"
| "used_at (ExprNode (Call func args keywords)) =
     (case func of Name ident ctx \<Rightarrow> [ident] | _ \<Rightarrow> [])"
| "used_at _ = []"

definition identifier_pattern :: regex where
  "identifier_pattern =
     seqs [WordB,
           Grp (seqs [Cls [(97, 122), (65, 90), (95, 95)],
                      Rep (Cls [(97, 122), (65, 90), (48, 57), (95, 95)]) 0 True]),
           WordB]"

definition used_symbols_try :: "parser \<Rightarrow> pystr \<Rightarrow> error + pystr set" where
  "used_symbols_try parse text =
     (case ast_parse parse text of
        Inl e \<Rightarrow> Inl e
      | Inr tree \<Rightarrow> Inr (set (concat (map used_at (walk (ModNode tree))))))"

definition extract_used_symbols :: "parser \<Rightarrow> pystr \<Rightarrow> error + pystr set" where
  "extract_used_symbols parse text =
     (case used_symbols_try parse text of
        Inr symbols \<Rightarrow> Inr symbols
      | Inl SyntaxError \<Rightarrow> Inr (set (re_findall identifier_pattern text))
      | Inl e \<Rightarrow> Inl e)"

section \<open>The analysis run (analyzer/code\_analyzer.py)\<close>

text \<open>
  \<^verbatim>\<open>
  self.symbol_table = analyze_imports(self.source_code)
  modules = detect_module_boundaries(self.source_code)
  dependencies = build_dependency_graph(modules)
  modules_with_semantics = extract_semantic_purpose(modules)
  return {"modules": modules_with_semantics, "dependencies": dependencies,
          "symbols": self.symbol_table, "file_info": {...}}
  \<close>
  \<open>file_info\<close> describes the file on disk and is left out.
\<close>

record analysis_result =
  modules :: "module_info list"
  dependencies :: digraph
  symbols :: "pystr \<rightharpoonup> symbol_entry"

definition analyze ::
  "regex list \<Rightarrow> (pystr \<times> pystr list) list \<Rightarrow> parser \<Rightarrow> pystr \<Rightarrow> error + analysis_result" where
  "analyze patterns indicator_table parse source_code =
     (case analyze_imports parse source_code of
        Inl e \<Rightarrow> Inl e
      | Inr symbol_table \<Rightarrow>
     (case detect_module_boundaries patterns parse source_code of
        Inl e \<Rightarrow> Inl e
      | Inr detected \<Rightarrow>
     (case build_dependency_graph parse detected of
        Inl e \<Rightarrow> Inl e
      | Inr graph \<Rightarrow>
     (case extract_semantic_purpose indicator_table parse detected of
        Inl e \<Rightarrow> Inl e
      | Inr modules_with_semantics \<Rightarrow>
          Inr \<lparr>modules = modules_with_semantics, dependencies = graph,
               symbols = symbol_table\<rparr>))))"

section \<open>Naming rules in the words of the specification\<close>

text \<open>
  The specification lists three rules, tried in order, and a default. They are written
  here as scans of the text from the left that know nothing of regular expressions.

  A name character is an ASCII letter, a digit or the underscore. The glyphs that open a
  boxed label are U+2502, U+256D and U+2570, and those that close it are U+2502, U+256E
  and U+256F.
\<close>

definition name_char :: "nat \<Rightarrow> bool" where
  "name_char c \<longleftrightarrow> is_upper c \<or> is_lower c \<or> is_digit c \<or> c = 95"

definition letter_or_blank :: "nat \<Rightarrow> bool" where
  "letter_or_blank c \<longleftrightarrow> is_upper c \<or> is_lower c \<or> c = 32"

definition opening_glyph :: "nat \<Rightarrow> bool" where
  "opening_glyph c \<longleftrightarrow> c = 9474 \<or> c = 9581 \<or> c = 9584"

definition closing_glyph :: "nat \<Rightarrow> bool" where
  "closing_glyph c \<longleftrightarrow> c = 9474 \<or> c = 9582 \<or> c = 9583"

text \<open>
  The first occurrence: what \<open>here\<close> finds at the leftmost position of the text at which
  it finds anything, the end of the text included.
\<close>

fun first_occurrence :: "(pystr \<Rightarrow> 'a option) \<Rightarrow> pystr \<Rightarrow> 'a option" where
  "first_occurrence here [] = here []"
| "first_occurrence here (c # cs) =
     (case here (c # cs) of Some x \<Rightarrow> Some x | None \<Rightarrow> first_occurrence here cs)"

text \<open>
  A capitalised class name stands at a position when the text there reads \<open>class\<close>, one
  blank and a name that begins with a capital letter; the name runs as far as name
  characters go.
\<close>

definition class_name_here :: "pystr \<Rightarrow> pystr option" where
  "class_name_here s =
     (let nm = takeWhile name_char (drop 6 s)
      in if startswith s (u ''class '') \<and> nm \<noteq> [] \<and> is_upper (hd nm) then Some nm else None)"

text \<open>
  A boxed label stands at a position when the text there reads \<open>#\<close>, one blank, an opening
  glyph, at least one letter or blank, and a closing glyph. The label is what stands
  between the glyphs, without the blanks around it.
\<close>

definition header_label_here :: "pystr \<Rightarrow> pystr option" where
  "header_label_here s =
     (case drop 2 s of
        [] \<Rightarrow> None
      | glyph # rest \<Rightarrow>
          (let label = takeWhile letter_or_blank rest; after = dropWhile letter_or_blank rest
           in if startswith s (u ''# '') \<and> opening_glyph glyph \<and> label \<noteq> [] \<and>
                 after \<noteq> [] \<and> closing_glyph (hd after)
              then Some (strip label) else None))"

text \<open>
  A lower-case function name stands at a position when the text there reads \<open>def\<close>, one
  blank, a name that begins with a lower-case letter, and an opening parenthesis right
  after the name.
\<close>

definition function_name_here :: "pystr \<Rightarrow> pystr option" where
  "function_name_here s =
     (let nm = takeWhile name_char (drop 4 s); after = dropWhile name_char (drop 4 s)
      in if startswith s (u ''def '') \<and> nm \<noteq> [] \<and> is_lower (hd nm) \<and>
            after \<noteq> [] \<and> hd after = 40
         then Some nm else None)"

text \<open>
  The three rules: the first capitalised class name, lower-cased; the label of the first
  boxed section header, lower-cased with underscores for spaces; the first lower-case
  function name as it stands.
\<close>

definition rule_class_name :: "pystr \<Rightarrow> pystr option" where
  "rule_class_name text = map_option lower (first_occurrence class_name_here text)"

definition rule_header_label :: "pystr \<Rightarrow> pystr option" where
  "rule_header_label text =
     map_option (\<lambda>label. replace_chr 32 95 (lower label))
       (first_occurrence header_label_here text)"

definition rule_function_name :: "pystr \<Rightarrow> pystr option" where
  "rule_function_name text = first_occurrence function_name_here text"

fun first_applicable :: "(pystr \<Rightarrow> pystr option) list \<Rightarrow> pystr \<Rightarrow> pystr \<Rightarrow> pystr" where
  "first_applicable [] text default_name = default_name"
| "first_applicable (rule # rules) text default_name =
     (case rule text of Some nm \<Rightarrow> nm | None \<Rightarrow> first_applicable rules text default_name)"

section \<open>Concrete inputs\<close>

text \<open>
  A boxed header labelled Widgets followed by a class Foo:
  \<^verbatim>\<open>
  # <U+2502> Widgets <U+2502>
  class Foo:
      pass
  \<close>
\<close>

definition widgets_example :: pystr where
  "widgets_example =
     u ''# '' @ [9474] @ u '' Widgets '' @ [9474] @ [10] @ u ''class Foo:'' @ [10] @ u ''    pass''"

text \<open>
  An empty docstring, six double quotes. The two modules of the dependency scenario, \<open>helper_user\<close> and \<open>helper_provider\<close>, and the
  same two behind a comment that mentions a class Foo.

  What \<open>ast.parse\<close> returns on the sources that serve as concrete inputs, line numbers
  included. Comments leave no trace in a tree. A text with a surrogate code point
  (U+D800 to U+DFFF, 55296 to 57343) makes \<open>ast.parse\<close> raise \<open>UnicodeEncodeError\<close>.
  Any other text outside the table is taken to raise \<open>SyntaxError\<close>; the only such texts
  used below are \<open>else:\<close> and the last two lines of \<open>divided_function\<close>, on both of
  which Python does raise it (for the second one its subclass \<open>IndentationError\<close>).

  \<open>divided_function\<close> is a private function with a divider comment in its body:
  \<^verbatim>\<open>
  def _f():
      x = 1

  # ---- a ----
      return x
  \<close>
\<close>

definition divided_tail :: pystr where
  "divided_tail = u ''# ---- a ----'' @ [10] @ u ''    return x''"

definition divided_function :: pystr where
  "divided_function = u ''def _f():'' @ [10] @ u ''    x = 1'' @ [10, 10] @ divided_tail"

definition empty_docstring :: pystr where
  "empty_docstring = [34, 34, 34, 34, 34, 34]"

definition helper_user :: pystr where
  "helper_user = u ''result = helper(x)''"

definition helper_provider :: pystr where
  "helper_provider = u ''def helper(x):'' @ [10] @ u ''    return x''"

definition foo_user :: pystr where
  "foo_user = u ''# class Foo'' @ [10] @ u ''result = helper(x)''"

definition foo_provider :: pystr where
  "foo_provider = u ''# class Foo'' @ [10] @ u ''def helper(x):'' @ [10] @ u ''    return x''"

text \<open>
  Two imports under one local name, the first of them inside a function in
  \<open>nested_import\<close> and at the top level in \<open>repeated_import\<close>:
  \<^verbatim>\<open>
  def _f():
      import a as x
  import b as x
  \<close>
  \<^verbatim>\<open>
  import a as x
  import b as x
  \<close>
\<close>

definition nested_import :: pystr where
  "nested_import =
     u ''def _f():'' @ [10] @ u ''    import a as x'' @ [10] @ u ''import b as x''"

definition repeated_import :: pystr where
  "repeated_import = u ''import a as x'' @ [10] @ u ''import b as x''"

definition helper_call :: module_ast where
  "helper_call =
     Module [Assign [Name (u ''result'') Store]
               (Call (Name (u ''helper'') Load) [Name (u ''x'') Load] [])]"

definition helper_def :: "int \<Rightarrow> module_ast" where
  "helper_def line =
     Module [FunctionDef (u ''helper'') (plain_parameters [u ''x''])
               [Return (Some (Name (u ''x'') Load))] [] None line]"

definition parse_table :: "(pystr \<times> module_ast) list" where
  "parse_table =
     [(u ''x = 1'', Module [Assign [Name (u ''x'') Store] (Constant (u ''1''))]),
      (u ''def foo():'' @ [10] @ u ''    pass'',
         Module [FunctionDef (u ''foo'') (plain_parameters []) [Pass] [] None 1]),
      (u ''import os'' @ [10] @ u ''from json import dumps as d'',
         Module [Import [Alias (u ''os'') None] 1,
                 ImportFrom (Some (u ''json'')) [Alias (u ''dumps'') (Some (u ''d''))] 2]),
      (helper_user, helper_call),
      (helper_provider, helper_def 1),
      (foo_user, helper_call),
      (foo_provider, helper_def 2),
      (empty_docstring, Module [Expr (Constant [])]),
      (divided_function,
         Module [FunctionDef (u ''_f'') (plain_parameters [])
                   [Assign [Name (u ''x'') Store] (Constant (u ''1'')),
                    Return (Some (Name (u ''x'') Load))] [] None 1]),
      (nested_import,
         Module [FunctionDef (u ''_f'') (plain_parameters [])
                   [Import [Alias (u ''a'') (Some (u ''x''))] 2] [] None 1,
                 Import [Alias (u ''b'') (Some (u ''x''))] 3]),
      (repeated_import,
         Module [Import [Alias (u ''a'') (Some (u ''x''))] 1,
                 Import [Alias (u ''b'') (Some (u ''x''))] 2])]"

definition is_surrogate :: "nat \<Rightarrow> bool" where
  "is_surrogate c \<longleftrightarrow> 55296 \<le> c \<and> c \<le> 57343"

definition example_parse :: parser where
  "example_parse source_code =
     (if list_ex is_surrogate source_code then Inl UnicodeEncodeError
      else (case map_of parse_table source_code of
              None \<Rightarrow> Inl SyntaxError
            | Some tree \<Rightarrow> Inr tree))"

section \<open>Auxiliary notions for the semantic purpose\<close>

text \<open>
  The first text between triple double quotes exists and holds white space only.
\<close>

definition blank_docstring :: "pystr \<Rightarrow> bool" where
  "blank_docstring text =
     (case re_search docstring_pattern text of
        None \<Rightarrow> False
      | Some docstring_match \<Rightarrow> list_all is_space (group1 docstring_match))"

section \<open>Auxiliary notions for the dependency graph\<close>

definition no_self_edge :: "digraph \<Rightarrow> bool" where
  "no_self_edge g \<longleftrightarrow> list_all (\<lambda>(a, b). a \<noteq> b) (edges g)"

section \<open>Auxiliary notions for the definition scan\<close>

text \<open>A class or function definition whose name does not start with an underscore.\<close>

definition public_definition :: "node \<Rightarrow> bool" where
  "public_definition n =
     (case class_or_function n of
        None \<Rightarrow> False
      | Some (nm, lineno) \<Rightarrow> \<not> startswith nm (u ''_''))"


section \<open>Auxiliary notions for the import analysis\<close>



section \<open>Auxiliary notions for the matcher and the symbol scan\<close>

text \<open>The whole text that a matcher state stands in.\<close>

fun text_of :: "mstate \<Rightarrow> pystr" where
  "text_of (b, a, g) = rev b @ a"

text \<open>Group 1 of the first of a list of matches, if there is one.\<close>

fun first_group :: "mstate list \<Rightarrow> pystr option" where
  "first_group [] = None"
| "first_group (st # rest) = Some (group1 st)"

text \<open>
  An identifier in the sense of the fallback pattern: a letter or underscore followed by
  letters, digits and underscores.
\<close>

definition is_identifier :: "pystr \<Rightarrow> bool" where
  "is_identifier s =
     (case s of
        [] \<Rightarrow> False
      | c # cs \<Rightarrow> in_ranges [(97, 122), (65, 90), (95, 95)] c \<and>
                  list_all (in_ranges [(97, 122), (65, 90), (48, 57), (95, 95)]) cs)"

text \<open>
  The names read in a load context and the names called directly, among the nodes of a
  walk.
\<close>

definition names_and_callees :: "node list \<Rightarrow> pystr set" where
  "names_and_callees ns =
     {ident. ExprNode (Name ident Load) \<in> set ns \<or>
             (\<exists>ctx args keywords. ExprNode (Call (Name ident ctx) args keywords) \<in> set ns)}"


section \<open>Properties of the boundary grouping\<close>

lemma close_within_snoc:
  "close_within t (c @ [b]) \<longleftrightarrow> close_within t c \<and> (c = [] \<or> b - last c < t)"
  by (induction t c rule: close_within.induct) auto

lemma split_between_snoc:
  "split_between t (gs @ [c]) \<longleftrightarrow>
     split_between t gs \<and> (gs = [] \<or> t \<le> hd c - last (last gs))"
  by (induction t gs rule: split_between.induct) auto

lemma split_between_snoc2:
  "split_between t (gs @ [c, d]) \<longleftrightarrow> split_between t (gs @ [c]) \<and> t \<le> hd d - last c"
  using split_between_snoc[of t "gs @ [c]" d] by simp

text \<open>
  The loop invariant: the groups closed so far together with the open group are a
  proximity grouping of the boundaries already read, and the open group is empty only
  before the first boundary.
\<close>

lemma group_loop_inv:
  "proximity_grouping t pre (close_group (g, c)) \<Longrightarrow> (c = [] \<longrightarrow> g = []) \<Longrightarrow>
   proximity_grouping t (pre @ bs) (close_group (group_loop t bs g c))"
proof (induction bs arbitrary: pre g c)
  case Nil
  then show ?case by simp
next
  case (Cons b bs)
  show ?case
  proof (cases "c = [] \<or> b - last c < t")
    case True
    have "proximity_grouping t (pre @ [b]) (close_group (g, c @ [b]))"
      using Cons.prems True
      by (auto simp: proximity_grouping_def close_group_def close_within_snoc
            split_between_snoc split: if_splits)
    from Cons.IH[OF this] True show ?thesis by simp
  next
    case False
    have "proximity_grouping t (pre @ [b]) (close_group (g @ [c], [b]))"
      using Cons.prems False
      by (auto simp: proximity_grouping_def close_group_def split_between_snoc2
            split: if_splits)
    from Cons.IH[OF this] False show ?thesis by simp
  qed
qed

text \<open>
  A list of boundaries has at most one proximity grouping: of two candidates for the
  first group the longer one would hold, as neighbours, the last boundary of the shorter
  one and the boundary after it, which are at least the threshold apart.
\<close>

lemma close_within_gap:
  "close_within t (h @ x # r) \<Longrightarrow> h \<noteq> [] \<Longrightarrow> x - last h < t"
proof (induction h)
  case Nil
  then show ?case by simp
next
  case (Cons a h)
  show ?case
  proof (cases h)
    case Nil
    with Cons.prems show ?thesis by simp
  next
    case (Cons b h')
    with Cons.prems Cons.IH show ?thesis by simp
  qed
qed

lemma proximity_grouping_Cons:
  "proximity_grouping t bs (g # gs) \<longleftrightarrow>
     g \<noteq> [] \<and> close_within t g \<and> bs = g @ concat gs \<and>
     (gs = [] \<or> t \<le> hd (hd gs) - last g) \<and> proximity_grouping t (concat gs) gs"
  by (cases gs) (auto simp: proximity_grouping_def)

lemma proximity_grouping_Nil: "proximity_grouping t bs [] \<longleftrightarrow> bs = []"
  by (auto simp: proximity_grouping_def)

lemma proximity_grouping_concat_Nil:
  "proximity_grouping t bs gs \<Longrightarrow> bs = [] \<Longrightarrow> gs = []"
  by (cases gs) (auto simp: proximity_grouping_def)

lemma first_group_prefix:
  assumes g: "g \<noteq> []" "close_within t g"
    and h: "h \<noteq> []"
    and hs: "hs = [] \<or> t \<le> hd (hd hs) - last h" "proximity_grouping t (concat hs) hs"
    and eq: "g @ rest = h @ concat hs"
    and split: "g = h @ us"
  shows "us = []"
proof (rule ccontr)
  assume "us \<noteq> []"
  then obtain x r where us: "us = x # r" by (cases us) auto
  from g(2) split us h have lt: "x - last h < t" using close_within_gap by blast
  from eq split us have c: "concat hs = x # r @ rest" by simp
  then have "hs \<noteq> []" by auto
  then obtain h' hs' where hs': "hs = h' # hs'" by (cases hs) auto
  with hs(2) have "h' \<noteq> []" by (simp add: proximity_grouping_Cons)
  with c hs' have "hd h' = x" by (cases h') auto
  with hs(1) hs' have "t \<le> x - last h" by simp
  with lt show False by simp
qed

lemma proximity_grouping_unique:
  "proximity_grouping t bs gs \<Longrightarrow> proximity_grouping t bs hs \<Longrightarrow> gs = hs"
proof (induction gs arbitrary: bs hs)
  case Nil
  then have "bs = []" by (simp add: proximity_grouping_Nil)
  with Nil.prems(2) show ?case using proximity_grouping_concat_Nil by blast
next
  case (Cons g gs)
  from Cons.prems(1) have g: "g \<noteq> []" "close_within t g" "bs = g @ concat gs"
    "gs = [] \<or> t \<le> hd (hd gs) - last g" "proximity_grouping t (concat gs) gs"
    by (simp_all add: proximity_grouping_Cons)
  from g(1,3) have "bs \<noteq> []" by simp
  with Cons.prems(2) obtain h hs' where hs: "hs = h # hs'"
    by (cases hs) (auto simp: proximity_grouping_Nil)
  with Cons.prems(2) have h: "h \<noteq> []" "close_within t h" "bs = h @ concat hs'"
    "hs' = [] \<or> t \<le> hd (hd hs') - last h" "proximity_grouping t (concat hs') hs'"
    by (simp_all add: proximity_grouping_Cons)
  from g(3) h(3) have eq: "g @ concat gs = h @ concat hs'" by simp
  then obtain us where "g = h @ us \<and> us @ concat gs = concat hs' \<or>
      g @ us = h \<and> concat gs = us @ concat hs'"
    by (auto simp: append_eq_append_conv2)
  then have "g = h"
  proof
    assume a: "g = h @ us \<and> us @ concat gs = concat hs'"
    with first_group_prefix[OF g(1,2) h(1) h(4,5) eq] show ?thesis by simp
  next
    assume a: "g @ us = h \<and> concat gs = us @ concat hs'"
    then have "h = g @ us" by simp
    with first_group_prefix[OF h(1,2) g(1) g(4,5) eq[symmetric]] show ?thesis by simp
  qed
  with eq have "concat gs = concat hs'" by simp
  with g(5) h(5) Cons.IH have "gs = hs'" by simp
  with \<open>g = h\<close> hs show ?case by simp
qed

text \<open>
  C6. The groups that \<open>_group_related_boundaries\<close> returns are the one and only way to cut
  the boundary list into consecutive non-empty groups such that inside a group every
  boundary is less than the threshold away from the one before it (the group was
  extended) and every group starts at least the threshold after the end of the group
  before it (a new group was started). With threshold 10 the boundaries 2, 5, 20, 22
  give the groups [2, 5] and [20, 22].
\<close>

theorem group_related_boundaries_proximity:
  "(proximity_grouping t bs gs \<longleftrightarrow> gs = group_related_boundaries bs t) \<and>
   group_related_boundaries [2, 5, 20, 22] 10 = [[2, 5], [20, 22]]"
proof
  have holds: "proximity_grouping t bs (group_related_boundaries bs t)"
    using group_loop_inv[of t "[]" "[]" "[]" bs]
    by (simp add: proximity_grouping_def close_group_def group_related_boundaries_def)
  show "proximity_grouping t bs gs \<longleftrightarrow> gs = group_related_boundaries bs t"
    using holds proximity_grouping_unique by blast
  show "group_related_boundaries [2, 5, 20, 22] 10 = [[2, 5], [20, 22]]"
    by (simp add: group_related_boundaries_def close_group_def)
qed

theorem group_related_boundaries_proximity_witness:
  "proximity_grouping 10 [2, 5, 20, 22] [[2, 5], [20, 22]]"
proof -
  from group_related_boundaries_proximity[of 10 "[2, 5, 20, 22]" "[[2, 5], [20, 22]]"]
  have "proximity_grouping 10 [2, 5, 20, 22] [[2, 5], [20, 22]] \<longleftrightarrow>
      [[2, 5], [20, 22]] = group_related_boundaries [2, 5, 20, 22] 10"
    and "group_related_boundaries [2, 5, 20, 22] 10 = [[2, 5], [20, 22]]"
    by (rule conjunct1, rule conjunct2)
  then show ?thesis by simp
qed

section \<open>Properties of the case conversion\<close>

lemma sub_loop_Nil: "sub_loop r repl b [] = (case rmatch r (b, [], None) of [] \<Rightarrow> [] | st # _ \<Rightarrow> repl (group1 st))"
  by (simp split: list.splits)

lemma sub_loop_Cons_nomatch:
  "rmatch r (b, c # cs, None) = [] \<Longrightarrow> sub_loop r repl b (c # cs) = c # sub_loop r repl (c # b) cs"
  by simp

lemma sub_loop_Cons_match:
  "rmatch r (b, c # cs, None) = (b', a', g) # rest \<Longrightarrow> length a' < Suc (length cs) \<Longrightarrow>
   sub_loop r repl b (c # cs) = repl (group1 (b', a', g)) @ sub_loop r repl b' a'"
  by simp

lemma rmatch_capital:
  "rmatch capital_pattern (b, c # cs, None) = (if is_upper c then [(c # b, cs, Some [c])] else [])"
  by (simp add: capital_pattern_def in_ranges_def is_upper_def)

lemma rmatch_capital_Nil: "rmatch capital_pattern (b, [], None) = []"
  by (simp add: capital_pattern_def)

lemma sub_capital:
  "sub_loop capital_pattern (\<lambda>g. 95 # g) b t = concat (map (\<lambda>c. if is_upper c then [95, c] else [c]) t)"
proof (induction t arbitrary: b)
  case Nil
  show ?case by (simp add: sub_loop_Nil rmatch_capital_Nil)
next
  case (Cons c cs)
  show ?case
  proof (cases "is_upper c")
    case True
    then have "sub_loop capital_pattern (\<lambda>g. 95 # g) b (c # cs) = [95, c] @ sub_loop capital_pattern (\<lambda>g. 95 # g) (c # b) cs"
      using sub_loop_Cons_match[of capital_pattern b c cs "c # b" cs "Some [c]" "[]" "\<lambda>g. 95 # g"]
      by (simp add: rmatch_capital)
    then show ?thesis using True Cons.IH by simp
  next
    case False
    then show ?thesis using Cons.IH
      by (simp add: sub_loop_Cons_nomatch rmatch_capital del: sub_loop.simps)
  qed
qed

lemma rmatch_blank_none:
  "a = [] \<or> \<not> in_ranges [(32, 32), (45, 45)] (hd a) \<Longrightarrow> rmatch blank_pattern (b, a, None) = []"
  by (cases a) (simp_all add: blank_pattern_def)

lemma sub_blank:
  "\<forall>c\<in>set t. \<not> in_ranges [(32, 32), (45, 45)] c \<Longrightarrow> sub_loop blank_pattern repl b t = t"
proof (induction t arbitrary: b)
  case Nil
  show ?case by (simp add: sub_loop_Nil rmatch_blank_none)
next
  case (Cons c cs)
  then show ?case
    by (simp add: sub_loop_Cons_nomatch rmatch_blank_none del: sub_loop.simps)
qed

lemma rmatch_underscores_none:
  "a = [] \<or> hd a \<noteq> 95 \<Longrightarrow> rmatch underscores_pattern (b, a, None) = []"
  by (cases a) (simp_all add: underscores_pattern_def)

lemma rmatch_underscores_one:
  "rest = [] \<or> hd rest \<noteq> 95 \<Longrightarrow>
   rmatch underscores_pattern (b, 95 # rest, None) = [(95 # b, rest, None)]"
  by (cases rest) (simp_all add: underscores_pattern_def)

lemma sub_underscores:
  "single_underscores t \<Longrightarrow> sub_loop underscores_pattern (\<lambda>g. [95]) b t = t"
proof (induction t arbitrary: b rule: single_underscores.induct)
  case (3 c d rest)
  show ?case
  proof (cases "c = 95")
    case True
    with 3 have d: "d \<noteq> 95" by simp
    have "rmatch underscores_pattern (b, 95 # d # rest, None) = [(95 # b, d # rest, None)]"
      using d by (simp add: rmatch_underscores_one)
    then have "sub_loop underscores_pattern (\<lambda>g. [95]) b (95 # d # rest) =
        [95] @ sub_loop underscores_pattern (\<lambda>g. [95]) (95 # b) (d # rest)"
      using sub_loop_Cons_match[of underscores_pattern b 95 "d # rest" "95 # b" "d # rest" None "[]" "\<lambda>g. [95]"]
      by simp
    then show ?thesis using 3 True by simp
  next
    case False
    then show ?thesis using 3
      by (simp add: sub_loop_Cons_nomatch rmatch_underscores_none del: sub_loop.simps)
  qed
next
  case 1
  show ?case by (simp add: sub_loop_Nil rmatch_underscores_none)
next
  case (2 c)
  show ?case
  proof (cases "c = 95")
    case True
    have "rmatch underscores_pattern (b, [95], None) = [(95 # b, [], None)]"
      by (simp add: rmatch_underscores_one)
    then have "sub_loop underscores_pattern (\<lambda>g. [95]) b [95] =
        [95] @ sub_loop underscores_pattern (\<lambda>g. [95]) (95 # b) []"
      using sub_loop_Cons_match[of underscores_pattern b 95 "[]" "95 # b" "[]" None "[]" "\<lambda>g. [95]"]
      by simp
    then show ?thesis using True by (simp add: sub_loop_Nil rmatch_underscores_none del: sub_loop.simps)
  next
    case False
    then show ?thesis
      by (simp add: sub_loop_Cons_nomatch sub_loop_Nil rmatch_underscores_none del: sub_loop.simps)
  qed
qed


lemma single_underscores_Cons:
  "single_underscores (c # t) \<longleftrightarrow> (t = [] \<or> \<not> (c = 95 \<and> hd t = 95)) \<and> single_underscores t"
  by (cases t) auto

lemma single_underscores_append:
  "95 \<notin> set x \<Longrightarrow> single_underscores t \<Longrightarrow> single_underscores (x @ t)"
  by (induction x) (auto simp: single_underscores_Cons)

lemma join_plain:
  "list_all plain_word vs \<Longrightarrow>
   single_underscores (join [95] vs) \<and>
   (vs \<noteq> [] \<longrightarrow> join [95] vs \<noteq> [] \<and> hd (join [95] vs) \<noteq> 95 \<and> last (join [95] vs) \<noteq> 95)"
proof (induction "[95::nat]" vs rule: join.induct)
  case 1
  show ?case by simp
next
  case (2 x)
  then have "95 \<notin> set x" "x \<noteq> []" by (simp_all add: plain_word_def)
  moreover from this have "last x \<in> set x" by simp
  ultimately show ?case using single_underscores_append[of x "[]"]
    by (cases x) auto
next
  case (3 x y rest)
  then have x: "95 \<notin> set x" "x \<noteq> []" by (simp_all add: plain_word_def)
  from 3 have ih: "single_underscores (join [95] (y # rest))"
    "join [95] (y # rest) \<noteq> []" "hd (join [95] (y # rest)) \<noteq> 95"
    "last (join [95] (y # rest)) \<noteq> 95" by simp_all
  have "single_underscores (95 # join [95] (y # rest))"
    using ih by (simp add: single_underscores_Cons)
  then have "single_underscores (x @ 95 # join [95] (y # rest))"
    using x by (simp add: single_underscores_append)
  moreover have "hd (x @ 95 # join [95] (y # rest)) \<noteq> 95"
    using x by (cases x) auto
  ultimately show ?case using ih by simp
qed

lemma dropWhile_id: "xs = [] \<or> \<not> p (hd xs) \<Longrightarrow> dropWhile p xs = xs"
  by (cases xs) auto

lemma strip_by_clean:
  "t = [] \<or> (\<not> p (hd t) \<and> \<not> p (last t)) \<Longrightarrow> strip_by p t = t"
proof (cases t)
  case Nil
  then show ?thesis by (simp add: strip_by_def)
next
  case (Cons c cs)
  assume "t = [] \<or> (\<not> p (hd t) \<and> \<not> p (last t))"
  with Cons have h: "\<not> p c" "\<not> p (last t)" by auto
  have "dropWhile p t = t" using h Cons by simp
  moreover have "hd (rev t) = last t" using Cons by (simp add: hd_rev)
  then have "dropWhile p (rev t) = rev t"
    using h by (intro dropWhile_id) simp
  ultimately show ?thesis by (simp add: strip_by_def)
qed

lemma strip_by_lead:
  "p c \<Longrightarrow> t \<noteq> [] \<Longrightarrow> \<not> p (hd t) \<Longrightarrow> \<not> p (last t) \<Longrightarrow> strip_by p (c # t) = t"
proof -
  assume a: "p c" "t \<noteq> []" "\<not> p (hd t)" "\<not> p (last t)"
  then have "dropWhile p (c # t) = t" by (cases t) auto
  then have "strip_by p (c # t) = strip_by p t"
    using a by (cases t) (auto simp: strip_by_def)
  then show ?thesis using a strip_by_clean[of t p] by simp
qed


lemma snake_word_chars:
  "snake_word w \<Longrightarrow> x \<in> set w \<Longrightarrow> is_lower x \<or> is_digit x"
  by (cases w) (auto simp: list_all_iff)

lemma snake_word_plain: "snake_word w \<Longrightarrow> plain_word w"
  using snake_word_chars[of w 95]
  by (cases w) (auto simp: plain_word_def is_lower_def is_digit_def)

lemma underscore_capitals_id:
  "\<forall>c\<in>set t. \<not> is_upper c \<Longrightarrow> underscore_capitals t = t"
  by (induction t) (auto simp: underscore_capitals_def)

lemma lower_id: "\<forall>c\<in>set t. \<not> is_upper c \<Longrightarrow> lower t = t"
  by (induction t) (auto simp: lower_def lower_chr_def)

lemma to_snake_case_unfold:
  assumes "\<forall>c\<in>set t. \<not> in_ranges [(32, 32), (45, 45)] c"
    and "single_underscores (underscore_capitals t)"
  shows "to_snake_case t = lower (strip_chars [95] (underscore_capitals t))"
proof -
  have s1: "re_sub capital_pattern (\<lambda>g. 95 # g) t = underscore_capitals t"
    by (simp add: re_sub_def sub_capital underscore_capitals_def del: sub_loop.simps)
  have "\<forall>c\<in>set (underscore_capitals t). \<not> in_ranges [(32, 32), (45, 45)] c"
    using assms(1) by (auto simp: underscore_capitals_def in_ranges_def split: if_splits)
  then have s2: "re_sub blank_pattern (\<lambda>g. [95]) (underscore_capitals t) = underscore_capitals t"
    by (simp add: re_sub_def sub_blank del: sub_loop.simps)
  have s3: "re_sub underscores_pattern (\<lambda>g. [95]) (underscore_capitals t) = underscore_capitals t"
    using assms(2) by (simp add: re_sub_def sub_underscores del: sub_loop.simps)
  show ?thesis by (simp add: to_snake_case_def s1 s2 s3)
qed

lemma split_plain: "95 \<notin> set x \<Longrightarrow> split 95 x = [x]"
  by (induction x) auto

lemma split_append: "95 \<notin> set x \<Longrightarrow> split 95 (x @ 95 # t) = x # split 95 t"
  by (induction x) auto

lemma split_join:
  "vs \<noteq> [] \<Longrightarrow> list_all plain_word vs \<Longrightarrow> split 95 (join [95] vs) = vs"
  by (induction "[95::nat]" vs rule: join.induct)
     (auto simp: split_plain split_append plain_word_def)

lemma snake_chars_join:
  "list_all snake_word ws \<Longrightarrow> x \<in> set (join [95] ws) \<Longrightarrow> is_lower x \<or> is_digit x \<or> x = 95"
  by (induction "[95::nat]" ws rule: join.induct) (auto dest: snake_word_chars)

lemma to_snake_case_fixed:
  assumes "snake_words ws"
  shows "to_snake_case (join [95] ws) = join [95] ws"
proof -
  let ?s = "join [95] ws"
  from assms have ws: "ws \<noteq> []" "list_all snake_word ws" by (simp_all add: snake_words_def)
  then have plain: "list_all plain_word ws" by (auto simp: list_all_iff snake_word_plain)
  have chars: "\<forall>c\<in>set ?s. is_lower c \<or> is_digit c \<or> c = 95"
    using ws(2) snake_chars_join by blast
  then have noup: "\<forall>c\<in>set ?s. \<not> is_upper c"
    by (auto simp: is_upper_def is_lower_def is_digit_def)
  have noblank: "\<forall>c\<in>set ?s. \<not> in_ranges [(32, 32), (45, 45)] c"
    using chars by (auto simp: in_ranges_def is_lower_def is_digit_def)
  have uc: "underscore_capitals ?s = ?s" using noup by (rule underscore_capitals_id)
  from join_plain[OF plain] ws(1)
  have j: "single_underscores ?s" "?s \<noteq> []" "hd ?s \<noteq> 95" "last ?s \<noteq> 95" by simp_all
  have "to_snake_case ?s = lower (strip_chars [95] ?s)"
    using to_snake_case_unfold[OF noblank] j(1) uc by simp
  also have "strip_chars [95] ?s = ?s"
    unfolding strip_chars_def using j by (intro strip_by_clean) simp
  also have "lower ?s = ?s" using noup by (rule lower_id)
  finally show ?thesis .
qed


lemma capitalize_snake_word:
  "snake_word (c # cs) \<Longrightarrow> capitalize (c # cs) = upper_chr c # cs \<and> is_upper (upper_chr c)"
proof -
  assume a: "snake_word (c # cs)"
  then have "\<forall>x\<in>set cs. \<not> is_upper x"
    by (auto simp: list_all_iff is_upper_def is_lower_def is_digit_def)
  then have "lower cs = cs" by (rule lower_id)
  moreover have "is_upper (upper_chr c)"
    using a by (auto simp: upper_chr_def is_upper_def is_lower_def)
  ultimately show ?thesis by simp
qed

lemma underscore_capitals_append:
  "underscore_capitals (x @ y) = underscore_capitals x @ underscore_capitals y"
  by (simp add: underscore_capitals_def)

lemma underscore_capitals_capitalize:
  assumes "snake_word w"
  shows "underscore_capitals (capitalize w) = 95 # capitalize w"
proof (cases w)
  case Nil
  with assms show ?thesis by simp
next
  case (Cons c cs)
  with assms have cap: "capitalize w = upper_chr c # cs" "is_upper (upper_chr c)"
    using capitalize_snake_word by auto
  from assms Cons have "\<forall>x\<in>set cs. \<not> is_upper x"
    by (auto simp: list_all_iff is_upper_def is_lower_def is_digit_def)
  then have "underscore_capitals cs = cs" by (rule underscore_capitals_id)
  then show ?thesis using cap
    using underscore_capitals_append[of "[upper_chr c]" cs]
    by (simp add: underscore_capitals_def)
qed

lemma underscore_capitals_pascal:
  "list_all snake_word ws \<Longrightarrow> ws \<noteq> [] \<Longrightarrow>
   underscore_capitals (concat (map capitalize ws)) = 95 # join [95] (map capitalize ws)"
proof (induction ws)
  case Nil
  then show ?case by simp
next
  case (Cons w ws)
  show ?case
  proof (cases ws)
    case Nil
    then show ?thesis using Cons.prems
      by (simp add: underscore_capitals_capitalize)
  next
    case (Cons v vs)
    then show ?thesis using Cons.prems Cons.IH
      by (simp add: underscore_capitals_append underscore_capitals_capitalize)
  qed
qed

lemma capitalize_plain: "snake_word w \<Longrightarrow> plain_word (capitalize w)"
proof (cases w)
  case Nil
  assume "snake_word w"
  with Nil show ?thesis by simp
next
  case (Cons c cs)
  assume a: "snake_word w"
  with Cons have "capitalize w = upper_chr c # cs" "is_upper (upper_chr c)"
    using capitalize_snake_word by auto
  moreover have "95 \<notin> set cs"
    using a Cons by (auto simp: list_all_iff is_lower_def is_digit_def)
  ultimately show ?thesis by (auto simp: plain_word_def is_upper_def)
qed

lemma lower_capitalize: "snake_word w \<Longrightarrow> lower (capitalize w) = w"
proof (cases w)
  case Nil
  assume "snake_word w"
  with Nil show ?thesis by simp
next
  case (Cons c cs)
  assume a: "snake_word w"
  with Cons have cap: "capitalize w = upper_chr c # cs" using capitalize_snake_word by auto
  from a Cons have "\<forall>x\<in>set cs. \<not> is_upper x"
    by (auto simp: list_all_iff is_upper_def is_lower_def is_digit_def)
  then have "lower cs = cs" by (rule lower_id)
  moreover have "lower_chr (upper_chr c) = c"
    using a Cons by (auto simp: lower_chr_def upper_chr_def is_upper_def is_lower_def)
  ultimately show ?thesis using cap Cons by (simp add: lower_def)
qed

lemma lower_join_pascal:
  "list_all snake_word ws \<Longrightarrow> lower (join [95] (map capitalize ws)) = join [95] ws"
proof (induction "[95::nat]" ws rule: join.induct)
  case 1
  show ?case by (simp add: lower_def)
next
  case (2 x)
  then show ?case by (simp add: lower_capitalize)
next
  case (3 x y rest)
  then have "lower (join [95] (map capitalize (y # rest))) = join [95] (y # rest)" by simp
  moreover have "lower (capitalize x) = x" using 3 by (simp add: lower_capitalize)
  moreover have "lower (a @ 95 # b) = lower a @ 95 # lower b" for a b
    by (simp add: lower_def lower_chr_def is_upper_def)
  ultimately show ?case by simp
qed

lemma to_snake_case_pascal:
  assumes "snake_words ws"
  shows "to_snake_case (concat (map capitalize ws)) = join [95] ws"
proof -
  let ?p = "concat (map capitalize ws)"
  let ?j = "join [95] (map capitalize ws)"
  from assms have ws: "ws \<noteq> []" "list_all snake_word ws" by (simp_all add: snake_words_def)
  have plain: "list_all plain_word (map capitalize ws)"
    using ws(2) by (auto simp: list_all_iff capitalize_plain)
  from join_plain[OF plain] ws(1)
  have j: "single_underscores ?j" "?j \<noteq> []" "hd ?j \<noteq> 95" "last ?j \<noteq> 95" by simp_all
  have uc: "underscore_capitals ?p = 95 # ?j"
    using ws by (simp add: underscore_capitals_pascal)
  have noblank: "\<forall>c\<in>set ?p. \<not> in_ranges [(32, 32), (45, 45)] c"
  proof
    fix c assume "c \<in> set ?p"
    then obtain w where w: "w \<in> set ws" and c: "c \<in> set (capitalize w)" by auto
    from w ws(2) have sw: "snake_word w" by (simp add: list_all_iff)
    then obtain d ds where wd: "w = d # ds" by (cases w) auto
    with sw have "capitalize w = upper_chr d # ds" "is_upper (upper_chr d)"
      using capitalize_snake_word by auto
    with c wd sw have "is_upper c \<or> is_lower c \<or> is_digit c"
      by (auto simp: list_all_iff)
    then show "\<not> in_ranges [(32, 32), (45, 45)] c"
      by (auto simp: in_ranges_def is_upper_def is_lower_def is_digit_def)
  qed
  have "single_underscores (underscore_capitals ?p)"
    using uc j by (simp add: single_underscores_Cons)
  from to_snake_case_unfold[OF noblank this]
  have "to_snake_case ?p = lower (strip_chars [95] (95 # ?j))" using uc by simp
  also have "strip_chars [95] (95 # ?j) = ?j"
    unfolding strip_chars_def using j by (intro strip_by_lead) simp_all
  also have "lower ?j = join [95] ws" using ws(2) by (rule lower_join_pascal)
  finally show ?thesis .
qed

text \<open>
  C10. For a string of one or more words joined by underscores, each word a lower-case
  letter followed by lower-case letters or digits, converting to PascalCase and back to
  snake\_case gives the string again, and \<open>to_snake_case\<close> applied twice gives what it
  gives applied once.
\<close>

theorem snake_pascal_round_trip:
  assumes "snake_words ws"
  shows "to_snake_case (to_pascal_case (join [95] ws)) = join [95] ws \<and>
         to_snake_case (to_snake_case (join [95] ws)) = to_snake_case (join [95] ws)"
proof -
  from assms have ws: "ws \<noteq> []" "list_all snake_word ws" by (simp_all add: snake_words_def)
  then have plain: "list_all plain_word ws" by (auto simp: list_all_iff snake_word_plain)
  have fixed: "to_snake_case (join [95] ws) = join [95] ws"
    using assms by (rule to_snake_case_fixed)
  have "to_pascal_case (join [95] ws) = concat (map capitalize ws)"
    using fixed split_join[OF ws(1) plain] by (simp add: to_pascal_case_def)
  then show ?thesis using fixed to_snake_case_pascal[OF assms] by simp
qed

theorem snake_pascal_round_trip_witness:
  "snake_words [u ''foo'', u ''bar2''] \<and>
   to_snake_case (to_pascal_case (u ''foo_bar2'')) = u ''foo_bar2''"
proof -
  have w: "snake_words [u ''foo'', u ''bar2'']"
    by (simp add: snake_words_def u_def is_lower_def is_digit_def)
  have "join [95] [u ''foo'', u ''bar2''] = u ''foo_bar2''" by (simp add: u_def)
  with snake_pascal_round_trip[OF w] w show ?thesis by simp
qed

section \<open>Properties of the module detection\<close>

lemmas regex_eval = re_search_def re_match_def seqs_def lit_def in_ranges_def u_def

lemmas parse_eval = example_parse_def parse_table_def u_def divided_function_def divided_tail_def
  helper_user_def helper_provider_def foo_user_def foo_provider_def empty_docstring_def
  is_surrogate_def nested_import_def repeated_import_def

text \<open>
  The definition scan has two outcomes only: it raises at the first public class or
  function definition that the walk meets, at any depth, and returns the empty list when
  there is none.
\<close>

lemma definition_loop_result:
  "definition_loop tree ns acc =
     (if list_ex public_definition ns then Inl AttributeError else Inr acc)"
  by (induction ns arbitrary: acc)
     (auto simp: public_definition_def iter_fields_is_module_def ast_iter_ancestors_def
        split: option.splits)

lemma find_definition_boundaries_result:
  "find_definition_boundaries tree =
     (if list_ex public_definition (walk tree) then Inl AttributeError else Inr [])"
  by (simp add: find_definition_boundaries_def definition_loop_result)

text \<open>
  C3. On the module \<^verbatim>\<open>def foo(): pass\<close>, whose only definition is public and at top level,
  the definition scan does not record line 0: it raises \<open>AttributeError\<close>.
\<close>

theorem find_definition_boundaries_raises:
  "find_definition_boundaries
     (ModNode (Module [FunctionDef (u ''foo'') (plain_parameters []) [Pass] [] None 1])) =
     Inl AttributeError"
  by (simp add: find_definition_boundaries_def walk_def iter_fields_is_module_def
        ast_iter_ancestors_def startswith_def u_def)

lemma sections_x: "find_section_boundaries MODULE_BOUNDARY_PATTERNS (split 10 (u ''x = 1'')) = []"
  by (simp add: find_section_boundaries_def MODULE_BOUNDARY_PATTERNS_def regex_eval
        enumerate_eq_zip rule_chars_def call_suffix_def)

lemma parse_x:
  "example_parse (u ''x = 1'') = Inr (Module [Assign [Name (u ''x'') Store] (Constant (u ''1''))])"
  by (simp add: parse_eval)

lemma defs_x:
  "find_definition_boundaries
     (ModNode (Module [Assign [Name (u ''x'') Store] (Constant (u ''1''))])) = Inr []"
  by (simp add: find_definition_boundaries_def walk_def)

text \<open>
  C1, as the claim states it, fails: the one-line source \<^verbatim>\<open>x = 1\<close> parses, no pattern
  matches its line, the definition scan finds nothing, and detection returns the empty
  list of modules, not one module for line 0.
\<close>

theorem detect_module_boundaries_counterexample:
  "example_parse (u ''x = 1'') = Inr (Module [Assign [Name (u ''x'') Store] (Constant (u ''1''))]) \<and>
   find_section_boundaries MODULE_BOUNDARY_PATTERNS (split 10 (u ''x = 1'')) = [] \<and>
   find_definition_boundaries
     (ModNode (Module [Assign [Name (u ''x'') Store] (Constant (u ''1''))])) = Inr [] \<and>
   detect_module_boundaries MODULE_BOUNDARY_PATTERNS example_parse (u ''x = 1'') = Inr []"
  using parse_x sections_x defs_x
  by (simp add: detect_module_boundaries_def ast_parse_def group_related_boundaries_def
        close_group_def create_module_definitions_def)

text \<open>
  C1, amended. For every source text that parses, in which the comment-divider scan finds
  no divider line and the definition scan finds no boundary, boundary detection returns
  the empty list of modules.
\<close>

theorem detect_module_boundaries_no_boundaries:
  assumes "parse source_code = Inr tree"
    and "find_section_boundaries patterns (split 10 source_code) = []"
    and "find_definition_boundaries (ModNode tree) = Inr []"
  shows "detect_module_boundaries patterns parse source_code = Inr []"
  using assms
  by (simp add: detect_module_boundaries_def ast_parse_def group_related_boundaries_def
        close_group_def create_module_definitions_def)

theorem detect_module_boundaries_no_boundaries_witness:
  "example_parse (u ''x = 1'') = Inr (Module [Assign [Name (u ''x'') Store] (Constant (u ''1''))]) \<and>
   find_section_boundaries MODULE_BOUNDARY_PATTERNS (split 10 (u ''x = 1'')) = [] \<and>
   find_definition_boundaries
     (ModNode (Module [Assign [Name (u ''x'') Store] (Constant (u ''1''))])) = Inr [] \<and>
   detect_module_boundaries MODULE_BOUNDARY_PATTERNS example_parse (u ''x = 1'') = Inr []"
  using detect_module_boundaries_no_boundaries[where parse = example_parse
      and source_code = "u ''x = 1''", OF parse_x sections_x defs_x]
    parse_x sections_x defs_x
  by simp

section \<open>Properties of the import analysis\<close>














section \<open>Properties of the matcher\<close>

lemma word_ranges_above: "list_all (\<lambda>(lo, hi). 128 \<le> lo) word_ranges"
  by (simp add: word_ranges_def)

lemma is_word_ascii:
  "c < 128 \<Longrightarrow> is_word c \<longleftrightarrow> is_upper c \<or> is_lower c \<or> is_digit c \<or> c = 95"
  using word_ranges_above by (fastforce simp: is_word_def list_all_iff list_ex_iff)

lemma eat_cases:
  "st' \<in> set (eat p (b, a, g)) \<longleftrightarrow> (\<exists>c cs. a = c # cs \<and> p c \<and> st' = (c # b, cs, g))"
  by (cases a) auto

lemma rep_eat:
  "st' \<in> set (rep_loop (eat p) greedy least n (b, a, g)) \<Longrightarrow>
   \<exists>k\<le>length a. (\<forall>x\<in>set (take k a). p x) \<and> st' = (rev (take k a) @ b, drop k a, g)"
proof (induction n arbitrary: b a least)
  case 0
  then show ?case by (auto split: if_splits intro: exI[of _ 0])
next
  case (Suc n)
  let ?again = "concat (map (rep_loop (eat p) greedy (least - 1) n)
                  (filter (\<lambda>s. remaining s < remaining (b, a, g)) (eat p (b, a, g))))"
  from Suc.prems have "st' \<in> set ?again \<or> st' = (b, a, g)"
    by (auto simp: Let_def split: if_splits)
  then show ?case
  proof
    assume "st' \<in> set ?again"
    then obtain c cs where a: "a = c # cs" and c: "p c"
      and st: "st' \<in> set (rep_loop (eat p) greedy (least - 1) n (c # b, cs, g))"
      by (auto simp: eat_cases)
    from Suc.IH[OF st] obtain k where k: "k \<le> length cs" "\<forall>x\<in>set (take k cs). p x"
      "st' = (rev (take k cs) @ c # b, drop k cs, g)" by blast
    show ?thesis
      using a c k by (intro exI[of _ "Suc k"]) simp
  next
    assume "st' = (b, a, g)"
    then show ?thesis by (intro exI[of _ 0]) simp
  qed
qed

lemma rmatch_Cls_eat: "rmatch (Cls rs) = eat (in_ranges rs)"
  by (rule ext) simp

lemma rmatch_Dot_eat: "rmatch Dot = eat (\<lambda>x. x \<noteq> 10)"
  by (rule ext) simp

lemma eat_text: "st' \<in> set (eat p st) \<Longrightarrow> text_of st' = text_of st"
  by (cases st) (auto simp: eat_cases)

lemma rep_loop_text:
  assumes "\<And>s s'. s' \<in> set (body s) \<Longrightarrow> text_of s' = text_of s"
  shows "s' \<in> set (rep_loop body greedy least n s) \<Longrightarrow> text_of s' = text_of s"
proof (induction n arbitrary: s least)
  case 0
  then show ?case by (auto split: if_splits)
next
  case (Suc n)
  from Suc.prems have
    "(\<exists>m\<in>set (body s). s' \<in> set (rep_loop body greedy (least - 1) n m)) \<or> s' = s"
    by (auto simp: Let_def split: if_splits)
  then show ?case
  proof
    assume "\<exists>m\<in>set (body s). s' \<in> set (rep_loop body greedy (least - 1) n m)"
    then obtain m where m: "m \<in> set (body s)"
      and r: "s' \<in> set (rep_loop body greedy (least - 1) n m)" by blast
    from Suc.IH[OF r] assms[OF m] show ?thesis by simp
  next
    assume "s' = s"
    then show ?thesis by simp
  qed
qed

lemma rmatch_text: "st' \<in> set (rmatch r st) \<Longrightarrow> text_of st' = text_of st"
proof (induction r arbitrary: st st')
  case Eps
  then show ?case by simp
next
  case (Chr c)
  then show ?case using eat_text[of st' "\<lambda>x. x = c" st] by simp
next
  case (Cls rs)
  then show ?case using eat_text[of st' "in_ranges rs" st] by simp
next
  case Dot
  then show ?case using eat_text[of st' "\<lambda>x. x \<noteq> 10" st] by simp
next
  case DotAll
  then show ?case using eat_text[of st' "\<lambda>x. True" st] by simp
next
  case Space
  then show ?case using eat_text[of st' is_space st] by simp
next
  case Word
  then show ?case using eat_text[of st' is_word st] by simp
next
  case WordB
  then show ?case by (simp split: if_splits)
next
  case (Seq r1 r2)
  from Seq.prems obtain m where m: "m \<in> set (rmatch r1 st)" and s: "st' \<in> set (rmatch r2 m)"
    by auto
  from Seq.IH(1)[OF m] Seq.IH(2)[OF s] show ?case by simp
next
  case (Rep r least greedy)
  have "st' \<in> set (rep_loop (rmatch r) greedy least (remaining st) st)"
    using Rep.prems by simp
  then show ?case
    by (rule rep_loop_text[rotated]) (rule Rep.IH)
next
  case (Opt r)
  from Opt.prems have "st' \<in> set (rmatch r st) \<or> st' = st" by auto
  then show ?case using Opt.IH by blast
next
  case (Grp r)
  from Grp.prems obtain m where m: "m \<in> set (rmatch r st)" and s: "st' = capture st m" by auto
  obtain b a g b' a' g' where "st = (b, a, g)" "m = (b', a', g')"
    by (cases st, cases m) auto
  with Grp.IH[OF m] s show ?case by simp
qed

lemma rmatch_identifier:
  assumes "st \<in> set (rmatch identifier_pattern (b, a, None))"
  shows "is_identifier (group1 st) \<and> group1 st = take (length (group1 st)) a"
proof -
  let ?first = "in_ranges [(97, 122), (65, 90), (95, 95)]"
  let ?word = "in_ranges [(97, 122), (65, 90), (48, 57), (95, 95)]"
  let ?X = "Seq (Cls [(97, 122), (65, 90), (95, 95)])
              (Seq (Rep (Cls [(97, 122), (65, 90), (48, 57), (95, 95)]) 0 True) Eps)"
  from assms obtain st1 where st1: "st1 \<in> set (rmatch ?X (b, a, None))"
    and st: "st = capture (b, a, None) st1"
    by (auto simp: identifier_pattern_def seqs_def split: if_splits)
  from st1 obtain c cs where a: "a = c # cs" and c: "?first c"
    and r: "st1 \<in> set (rep_loop (eat ?word) True 0 (length cs) (c # b, cs, None))"
    by (auto simp: eat_cases rmatch_Cls_eat)
  from rep_eat[OF r] obtain k where k: "k \<le> length cs" "\<forall>x\<in>set (take k cs). ?word x"
    "st1 = (rev (take k cs) @ c # b, drop k cs, None)" by blast
  have g: "group1 st = c # take k cs"
    using st k a by (simp add: Suc_diff_le)
  show ?thesis
    using g c k a by (simp add: is_identifier_def list_all_iff min_def)
qed

lemma findall_loop_groups:
  "x \<in> set (findall_loop r b a) \<Longrightarrow>
   \<exists>b' a' st. rev b' @ a' = rev b @ a \<and> st \<in> set (rmatch r (b', a', None)) \<and> x = group1 st"
proof (induction r b a rule: findall_loop.induct)
  case (1 r b a)
  show ?case
  proof (cases "rmatch r (b, a, None)")
    case Nil
    with "1.prems" obtain c cs where a: "a = c # cs" and x: "x \<in> set (findall_loop r (c # b) cs)"
      by (cases a) (auto simp: findall_loop.simps[of r b a])
    from "1.IH"(1)[OF Nil a x] a show ?thesis by simp
  next
    case (Cons st rest)
    obtain b' a' g where st: "st = (b', a', g)" by (cases st)
    have hd: "st \<in> set (rmatch r (b, a, None))" using Cons by simp
    show ?thesis
    proof (cases "x = group1 st")
      case True
      with hd show ?thesis by blast
    next
      case False
      show ?thesis
      proof (cases "length a' < length a")
        case True
        with False "1.prems" Cons st have "x \<in> set (findall_loop r b' a')"
          by (auto simp: findall_loop.simps[of r b a])
        moreover have "rev b' @ a' = rev b @ a"
          using rmatch_text[OF hd] st by simp
        ultimately show ?thesis
          using "1.IH"(2)[OF Cons[unfolded st] refl refl True] by simp
      next
        case F: False
        with False "1.prems" Cons st obtain c cs where a: "a = c # cs"
          and x: "x \<in> set (findall_loop r (c # b) cs)"
          by (cases a) (auto simp: findall_loop.simps[of r b a])
        from "1.IH"(3)[OF Cons[unfolded st] refl refl F a x] a show ?thesis by simp
      qed
    qed
  qed
qed

section \<open>Properties of the name extraction\<close>

text \<open>
  Each of the three patterns is related to the scan of the specification: what a search
  for the pattern reports is what the scan finds at its first occurrence.
\<close>

lemma rep_eat_list:
  "length a \<le> n \<Longrightarrow>
   rep_loop (eat p) greedy least n (b, a, g) =
     map (\<lambda>k. (rev (take k a) @ b, drop k a, g))
       (if greedy then rev [least..<Suc (length (takeWhile p a))]
        else [least..<Suc (length (takeWhile p a))])"
proof (induction n arbitrary: a b least)
  case 0
  then show ?case by simp
next
  case (Suc n)
  show ?case
  proof (cases a)
    case Nil
    then show ?thesis by simp
  next
    case (Cons c cs)
    show ?thesis
    proof (cases "p c")
      case False
      with Cons show ?thesis by simp
    next
      case True
      let ?m = "length (takeWhile p cs)"
      let ?f = "\<lambda>k. (rev (take k a) @ b, drop k a, g)"
      let ?h = "\<lambda>k. (rev (take k cs) @ c # b, drop k cs, g)"
      from Suc.prems Cons have len: "length cs \<le> n" by simp
      have h: "?h k = ?f (Suc k)" for k by (simp add: Cons)
      have again: "concat (map (rep_loop (eat p) greedy (least - 1) n)
              (filter (\<lambda>st'. remaining st' < remaining (b, a, g)) (eat p (b, a, g)))) =
            map ?h (if greedy then rev [least - 1..<Suc ?m] else [least - 1..<Suc ?m])"
        using True Cons Suc.IH[OF len, of "least - 1" "c # b"] by simp
      have shift: "map ?h [i..<j] = map ?f [Suc i..<Suc j]" for i j
        by (simp add: h map_Suc_upt[symmetric] del: upt_Suc)
      have m: "length (takeWhile p a) = Suc ?m" using True Cons by simp
      have shift_rev: "map ?h (rev [i..<j]) = map ?f (rev [Suc i..<Suc j])" for i j
        using shift[of i j] by (simp add: rev_map[symmetric] del: upt_Suc)
      have u: "[0..<Suc (Suc ?m)] = 0 # [Suc 0..<Suc (Suc ?m)]"
        by (simp add: upt_rec)
      show ?thesis
      proof (cases "0 < least")
        case pos: True
        then have s: "Suc (least - 1) = least" by simp
        show ?thesis
        proof (cases greedy)
          case True
          with again pos shift_rev[of "least - 1" "Suc ?m"] s show ?thesis
            by (simp add: Let_def m del: upt_Suc)
        next
          case False
          with again pos shift[of "least - 1" "Suc ?m"] s show ?thesis
            by (simp add: Let_def m del: upt_Suc)
        qed
      next
        case zero: False
        then have l: "least = 0" by simp
        show ?thesis
        proof (cases greedy)
          case True
          with again shift_rev[of 0 "Suc ?m"] show ?thesis
            by (simp add: Let_def m l u del: upt_Suc)
        next
          case False
          with again shift[of 0 "Suc ?m"] show ?thesis
            by (simp add: Let_def m l u del: upt_Suc)
        qed
      qed
    qed
  qed
qed


lemma rmatch_lit:
  "rmatch (lit s) (b, a, g) =
     (if startswith a s then [(rev s @ b, drop (length s) a, g)] else [])"
proof (induction s arbitrary: b a)
  case Nil
  then show ?case by (simp add: lit_def seqs_def startswith_def)
next
  case (Cons c s)
  have step: "rmatch (lit (c # s)) st = concat (map (rmatch (lit s)) (rmatch (Chr c) st))" for st
    by (simp add: lit_def seqs_def)
  show ?case
  proof (cases a)
    case Nil
    then show ?thesis by (simp add: step startswith_def)
  next
    case (Cons x xs)
    then show ?thesis using Cons.IH[of "c # b" xs]
      by (auto simp: step startswith_def)
  qed
qed

lemma rmatch_rep_cls:
  "rmatch (Rep (Cls rs) least greedy) (b, a, g) =
     map (\<lambda>k. (rev (take k a) @ b, drop k a, g))
       (if greedy then rev [least..<Suc (length (takeWhile (in_ranges rs) a))]
        else [least..<Suc (length (takeWhile (in_ranges rs) a))])"
  using rep_eat_list[of a "length a" "in_ranges rs" greedy least b g]
  by (simp add: rmatch_Cls_eat)

lemma rmatch_rep_chr:
  "rmatch (Rep (Chr c) least greedy) (b, a, g) =
     map (\<lambda>k. (rev (take k a) @ b, drop k a, g))
       (if greedy then rev [least..<Suc (length (takeWhile (\<lambda>x. x = c) a))]
        else [least..<Suc (length (takeWhile (\<lambda>x. x = c) a))])"
proof -
  have "rmatch (Chr c) = eat (\<lambda>x. x = c)" by (rule ext) simp
  then show ?thesis
    using rep_eat_list[of a "length a" "\<lambda>x. x = c" greedy least b g] by simp
qed

lemma name_char_ranges: "in_ranges [(97, 122), (65, 90), (48, 57), (95, 95)] = name_char"
  by (rule ext) (auto simp: in_ranges_def name_char_def is_upper_def is_lower_def is_digit_def)

lemma upper_ranges: "in_ranges [(65, 90)] = is_upper"
  by (rule ext) (simp add: in_ranges_def is_upper_def)

lemma lower_ranges: "in_ranges [(97, 122)] = is_lower"
  by (rule ext) (simp add: in_ranges_def is_lower_def)

lemma seqs_single: "rmatch (seqs [r]) = rmatch r"
proof
  fix st
  have "concat (map (rmatch Eps) xs) = xs" for xs :: "mstate list"
    by (induction xs) simp_all
  then show "rmatch (seqs [r]) st = rmatch r st" by (simp add: seqs_def del: rmatch.simps(10))
qed

lemma seqs_more:
  "rmatch (seqs (r # r2 # rs)) st = concat (map (rmatch (seqs (r2 # rs))) (rmatch r st))"
  by (simp add: seqs_def del: rmatch.simps(10))

text \<open>
  The states in which a name (a first character and the name characters after it) can
  end, longest first.
\<close>

lemma rmatch_name:
  "rmatch (seqs [Cls first, Rep (Cls [(97, 122), (65, 90), (48, 57), (95, 95)]) 0 True])
     (b, a, g) =
     (case a of
        [] \<Rightarrow> []
      | c # cs \<Rightarrow>
          if in_ranges first c
          then map (\<lambda>k. (rev (take k cs) @ c # b, drop k cs, g))
                 (rev [0..<Suc (length (takeWhile name_char cs))])
          else [])"
  by (cases a)
    (simp_all add: seqs_more seqs_single rmatch_rep_cls name_char_ranges
       del: rmatch.simps(10) upt_Suc)


lemma take_takeWhile_length: "take (length (takeWhile p xs)) xs = takeWhile p xs"
  by (induction xs) simp_all

lemma drop_takeWhile_length: "drop (length (takeWhile p xs)) xs = dropWhile p xs"
  by (induction xs) simp_all

lemma capture_name:
  "k \<le> length cs \<Longrightarrow>
   group1 (capture (b1, c # cs, g) (rev (take k cs) @ c # b1, drop k cs, g')) = c # take k cs"
  by (simp add: Suc_diff_le)

lemma class_head: "first_group (rmatch class_pattern (b, a, None)) = class_name_here a"
proof (cases "startswith a (u ''class '')")
  case False
  then show ?thesis
    by (simp add: class_pattern_def seqs_more rmatch_lit class_name_here_def Let_def)
next
  case True
  let ?N = "seqs [Cls [(65, 90)], Rep (Cls [(97, 122), (65, 90), (48, 57), (95, 95)]) 0 True]"
  let ?st = "(rev (u ''class '') @ b, drop 6 a, None :: pystr option)"
  have len: "length (u ''class '') = 6" by (simp add: u_def)
  define N where "N = ?N"
  have p: "class_pattern = seqs [lit (u ''class ''), Grp N]"
    by (simp add: class_pattern_def N_def)
  have "rmatch class_pattern (b, a, None) = map (capture ?st) (rmatch N ?st)"
    using True by (simp add: p seqs_more seqs_single rmatch_lit len)
  then have m: "rmatch class_pattern (b, a, None) = map (capture ?st) (rmatch ?N ?st)"
    by (simp only: N_def)
  show ?thesis
  proof (cases "drop 6 a")
    case Nil
    then show ?thesis using True by (simp add: m rmatch_name class_name_here_def)
  next
    case (Cons c cs)
    show ?thesis
    proof (cases "is_upper c")
      case False
      then show ?thesis using Cons True
        by (simp add: m rmatch_name class_name_here_def upper_ranges Let_def)
    next
      case up: True
      then have nc: "name_char c" by (simp add: name_char_def)
      let ?n = "length (takeWhile name_char cs)"
      have le: "?n \<le> length cs" by (rule length_takeWhile_le)
      have "rmatch ?N ?st =
          map (\<lambda>k. (rev (take k cs) @ c # rev (u ''class '') @ b, drop k cs, None))
            (rev [0..<Suc ?n])"
        using Cons up by (simp add: rmatch_name upper_ranges del: upt_Suc)
      then have "first_group (rmatch class_pattern (b, a, None)) = Some (c # take ?n cs)"
        using capture_name[OF le, of "rev (u ''class '') @ b" c None None] Cons
        by (simp add: m del: capture.simps group1.simps)
      then show ?thesis
        using Cons True up nc by (simp add: class_name_here_def take_takeWhile_length)
    qed
  qed
qed


lemma search_first:
  assumes "\<And>b a. (case rmatch r (b, a, None) of [] \<Rightarrow> None | st # x \<Rightarrow> Some (f st)) = here a"
  shows "map_option f (re_search_from r b a) = first_occurrence here a"
proof (induction a arbitrary: b)
  case Nil
  show ?case using assms[of b "[]"]
    by (cases "rmatch r (b, [], None)") simp_all
next
  case (Cons c cs)
  show ?case
  proof (cases "rmatch r (b, c # cs, None)")
    case Nil
    with assms[of b "c # cs"] have "here (c # cs) = None" by simp
    with Nil Cons.IH[of "c # b"] show ?thesis by simp
  next
    case (Cons st rest)
    with assms[of b "c # cs"] have "here (c # cs) = Some (f st)" by simp
    with Cons show ?thesis by simp
  qed
qed

lemma first_group_case:
  "first_group xs = (case xs of [] \<Rightarrow> None | st # x \<Rightarrow> Some (group1 st))"
  by (cases xs) simp_all

lemma search_class:
  "map_option group1 (re_search class_pattern text) = first_occurrence class_name_here text"
  unfolding re_search_def
  by (rule search_first) (simp add: class_head[unfolded first_group_case])

lemma name_char_not_paren: "name_char c \<Longrightarrow> c \<noteq> 40"
  by (auto simp: name_char_def is_upper_def is_lower_def is_digit_def)

lemma function_head: "first_group (rmatch func_pattern (b, a, None)) = function_name_here a"
proof (cases "startswith a (u ''def '')")
  case False
  then show ?thesis
    by (simp add: func_pattern_def seqs_more rmatch_lit function_name_here_def Let_def)
next
  case True
  let ?N = "seqs [Cls [(97, 122)], Rep (Cls [(97, 122), (65, 90), (48, 57), (95, 95)]) 0 True]"
  let ?st = "(rev (u ''def '') @ b, drop 4 a, None :: pystr option)"
  have len: "length (u ''def '') = 4" by (simp add: u_def)
  define N where "N = ?N"
  have p: "func_pattern = seqs [lit (u ''def ''), Grp N, Chr 40]"
    by (simp add: func_pattern_def N_def)
  have "rmatch func_pattern (b, a, None) =
      concat (map (rmatch (Chr 40)) (map (capture ?st) (rmatch N ?st)))"
    using True by (simp add: p seqs_more seqs_single rmatch_lit len)
  then have m: "rmatch func_pattern (b, a, None) =
      concat (map (rmatch (Chr 40)) (map (capture ?st) (rmatch ?N ?st)))"
    by (simp only: N_def)
  show ?thesis
  proof (cases "drop 4 a")
    case Nil
    then show ?thesis using True by (simp add: m rmatch_name function_name_here_def)
  next
    case (Cons c cs)
    show ?thesis
    proof (cases "is_lower c")
      case False
      then show ?thesis using Cons True
        by (simp add: m rmatch_name function_name_here_def lower_ranges Let_def)
    next
      case low: True
      then have nc: "name_char c" by (simp add: name_char_def)
      let ?n = "length (takeWhile name_char cs)"
      let ?G = "\<lambda>k. (rev (take k cs) @ c # rev (u ''def '') @ b, drop k cs, Some (c # take k cs))"
      have le: "?n \<le> length cs" by (rule length_takeWhile_le)
      have cap: "capture ?st (rev (take k cs) @ c # rev (u ''def '') @ b, drop k cs, None) = ?G k"
        for k
        using Cons by (cases "k \<le> length cs") (simp_all add: Suc_diff_le)
      have "rmatch ?N ?st =
          map (\<lambda>k. (rev (take k cs) @ c # rev (u ''def '') @ b, drop k cs, None))
            (rev [0..<Suc ?n])"
        using Cons low by (simp add: rmatch_name lower_ranges del: upt_Suc)
      then have m2: "rmatch func_pattern (b, a, None) =
          concat (map (rmatch (Chr 40)) (map ?G (rev [0..<Suc ?n])))"
        by (simp add: m cap comp_def del: capture.simps upt_Suc)
      have short: "rmatch (Chr 40) (?G k) = []" if "k < ?n" for k
      proof -
        from that have "k < length cs" using le by simp
        then have d: "drop k cs = cs ! k # drop (Suc k) cs" by (simp add: Cons_nth_drop_Suc)
        from that have "cs ! k = takeWhile name_char cs ! k" by (simp add: takeWhile_nth)
        moreover from that have "takeWhile name_char cs ! k \<in> set (takeWhile name_char cs)"
          by simp
        ultimately have "name_char (cs ! k)" by (auto dest: set_takeWhileD)
        then show ?thesis using d by (simp add: name_char_not_paren)
      qed
      then have "concat (map (rmatch (Chr 40)) (map ?G (rev [0..<?n]))) = []" by simp
      then have m3: "rmatch func_pattern (b, a, None) = rmatch (Chr 40) (?G ?n)"
        by (simp add: m2)
      have nm: "takeWhile name_char (drop 4 a) = c # take ?n cs"
        using Cons nc by (simp add: take_takeWhile_length)
      have af: "dropWhile name_char (drop 4 a) = drop ?n cs"
        using Cons nc by (simp add: drop_takeWhile_length)
      show ?thesis
      proof (cases "drop ?n cs")
        case Nil
        then show ?thesis using True low
          by (simp add: m3 function_name_here_def nm af Let_def)
      next
        case (Cons x xs)
        then show ?thesis using True low
          by (simp add: m3 function_name_here_def nm af Let_def)
      qed
    qed
  qed
qed

lemma search_function:
  "map_option group1 (re_search func_pattern text) = first_occurrence function_name_here text"
  unfolding re_search_def
  by (rule search_first) (simp add: function_head[unfolded first_group_case])


lemma letter_or_blank_ranges: "in_ranges [(65, 90), (97, 122), (32, 32)] = letter_or_blank"
  by (rule ext) (auto simp: in_ranges_def letter_or_blank_def is_upper_def is_lower_def)

lemma opening_ranges: "in_ranges [(9474, 9474), (9581, 9581), (9584, 9584)] = opening_glyph"
  by (rule ext) (auto simp: in_ranges_def opening_glyph_def)

lemma closing_ranges: "in_ranges [(9474, 9474), (9582, 9582), (9583, 9583)] = closing_glyph"
  by (rule ext) (auto simp: in_ranges_def closing_glyph_def)

lemma set_rep_cls:
  "set (rmatch (Rep (Cls rs) least greedy) (b, a, g)) =
     (\<lambda>k. (rev (take k a) @ b, drop k a, g)) ` {least..length (takeWhile (in_ranges rs) a)}"
  by (auto simp: rmatch_rep_cls simp del: rmatch.simps(10) upt_Suc)

lemma set_rep_chr:
  "set (rmatch (Rep (Chr c) least greedy) (b, a, g)) =
     (\<lambda>k. (rev (take k a) @ b, drop k a, g)) ` {least..length (takeWhile (\<lambda>x. x = c) a)}"
  by (auto simp: rmatch_rep_chr simp del: rmatch.simps(10) upt_Suc)

lemma set_seqs_more:
  "set (rmatch (seqs (r # r2 # rs)) st) = (\<Union>m\<in>set (rmatch r st). set (rmatch (seqs (r2 # rs)) m))"
  by (simp add: seqs_more del: rmatch.simps(10))

lemma mem_rep_cls:
  "s \<in> set (rmatch (Rep (Cls rs) least greedy) (b, a, g)) \<longleftrightarrow>
   (\<exists>k. least \<le> k \<and> k \<le> length (takeWhile (in_ranges rs) a) \<and>
        s = (rev (take k a) @ b, drop k a, g))"
  unfolding set_rep_cls by auto

lemma mem_rep_chr:
  "s \<in> set (rmatch (Rep (Chr c) least greedy) (b, a, g)) \<longleftrightarrow>
   (\<exists>k. least \<le> k \<and> k \<le> length (takeWhile (\<lambda>x. x = c) a) \<and>
        s = (rev (take k a) @ b, drop k a, g))"
  unfolding set_rep_chr by auto

lemma mem_seqs_more:
  "s \<in> set (rmatch (seqs (r # r2 # rs)) s0) \<longleftrightarrow>
   (\<exists>m. m \<in> set (rmatch r s0) \<and> s \<in> set (rmatch (seqs (r2 # rs)) m))"
  unfolding set_seqs_more by auto

text \<open>
  The part of the header pattern behind the opening glyph: blanks, the group, blanks and
  the closing glyph. Every way of matching it is given by the number of blanks taken
  first, the length of the group and the number of blanks taken after it.
\<close>

lemma header_tail3:
  "s \<in> set (rmatch (seqs [Rep (Chr 32) 0 True, Cls C]) (b, a, g)) \<longleftrightarrow>
   (\<exists>i x xs. i \<le> length (takeWhile (\<lambda>x. x = 32) a) \<and> drop i a = x # xs \<and> in_ranges C x \<and>
      s = (x # rev (take i a) @ b, xs, g))"
  (is "?l \<longleftrightarrow> ?r")
proof
  assume ?l
  then obtain m where m: "m \<in> set (rmatch (Rep (Chr 32) 0 True) (b, a, g))"
    and s: "s \<in> set (eat (in_ranges C) m)"
    unfolding mem_seqs_more seqs_single rmatch_Cls_eat by blast
  from m obtain i where i: "i \<le> length (takeWhile (\<lambda>x. x = 32) a)"
    and mi: "m = (rev (take i a) @ b, drop i a, g)"
    unfolding mem_rep_chr by blast
  from s obtain x xs where "drop i a = x # xs" "in_ranges C x" "s = (x # rev (take i a) @ b, xs, g)"
    unfolding mi eat_cases by blast
  with i show ?r by blast
next
  assume ?r
  then obtain i x xs where i: "i \<le> length (takeWhile (\<lambda>x. x = 32) a)"
    and d: "drop i a = x # xs" and c: "in_ranges C x"
    and s: "s = (x # rev (take i a) @ b, xs, g)" by blast
  have "(rev (take i a) @ b, drop i a, g) \<in> set (rmatch (Rep (Chr 32) 0 True) (b, a, g))"
    unfolding mem_rep_chr using i by blast
  moreover have "s \<in> set (eat (in_ranges C) (rev (take i a) @ b, drop i a, g))"
    unfolding eat_cases using d c s by blast
  ultimately show ?l
    unfolding mem_seqs_more seqs_single rmatch_Cls_eat by blast
qed

lemma header_tail2:
  "s \<in> set (rmatch (seqs [Grp (Rep (Cls L) 1 False), Rep (Chr 32) 0 True, Cls C]) (b, a, None))
   \<longleftrightarrow>
   (\<exists>j. 1 \<le> j \<and> j \<le> length (takeWhile (in_ranges L) a) \<and>
      s \<in> set (rmatch (seqs [Rep (Chr 32) 0 True, Cls C])
                 (rev (take j a) @ b, drop j a, Some (take j a))))"
  (is "?l \<longleftrightarrow> ?r")
proof -
  have cap: "capture (b, a, None) (rev (take j a) @ b, drop j a, None) =
      (rev (take j a) @ b, drop j a, Some (take j a))" for j
    by (cases "j \<le> length a") simp_all
  have grp: "m \<in> set (rmatch (Grp (Rep (Cls L) 1 False)) (b, a, None)) \<longleftrightarrow>
      (\<exists>j. 1 \<le> j \<and> j \<le> length (takeWhile (in_ranges L) a) \<and>
           m = (rev (take j a) @ b, drop j a, Some (take j a)))" for m
  proof -
    have "set (rmatch (Grp (Rep (Cls L) 1 False)) (b, a, None)) =
        capture (b, a, None) ` set (rmatch (Rep (Cls L) 1 False) (b, a, None))"
      by (simp del: rmatch.simps(10) capture.simps)
    also have "\<dots> = (\<lambda>j. (rev (take j a) @ b, drop j a, Some (take j a))) `
        {1..length (takeWhile (in_ranges L) a)}"
      unfolding set_rep_cls image_image cap ..
    finally show ?thesis by auto
  qed
  show ?thesis
    unfolding mem_seqs_more[of s "Grp (Rep (Cls L) 1 False)"] grp by blast
qed

lemma header_tail1:
  "s \<in> set (rmatch (seqs [Rep (Chr 32) 0 True, Grp (Rep (Cls L) 1 False), Rep (Chr 32) 0 True,
                          Cls C]) (b, a, None)) \<longleftrightarrow>
   (\<exists>k. k \<le> length (takeWhile (\<lambda>x. x = 32) a) \<and>
      s \<in> set (rmatch (seqs [Grp (Rep (Cls L) 1 False), Rep (Chr 32) 0 True, Cls C])
                 (rev (take k a) @ b, drop k a, None)))"
  unfolding mem_seqs_more[of s "Rep (Chr 32) 0 True"] mem_rep_chr by blast


lemma take_within_takeWhile:
  "n \<le> length (takeWhile q xs) \<Longrightarrow> \<forall>y\<in>set (take n xs). q y"
proof
  fix y
  assume n: "n \<le> length (takeWhile q xs)" and y: "y \<in> set (take n xs)"
  have "take n xs = take n (takeWhile q xs @ dropWhile q xs)" by simp
  also have "\<dots> = take n (takeWhile q xs)" using n by (simp del: takeWhile_dropWhile_id)
  finally have "y \<in> set (takeWhile q xs)" using y by (auto dest: in_set_takeD)
  then show "q y" by (auto dest: set_takeWhileD)
qed

lemma strip_by_pad:
  assumes "\<forall>y\<in>set l. p y" and "\<forall>y\<in>set r. p y"
  shows "strip_by p (l @ g @ r) = strip_by p g"
proof -
  have front: "dropWhile p (l @ g @ r) = dropWhile p (g @ r)"
    using assms(1) by (simp add: dropWhile_append2)
  show ?thesis
  proof (cases "\<forall>y\<in>set g. p y")
    case True
    then have "dropWhile p (g @ r) = []" "dropWhile p g = []" using assms(2) by auto
    then show ?thesis by (simp only: strip_by_def front)
  next
    case False
    then obtain y where y: "y \<in> set g" "\<not> p y" by blast
    then have "dropWhile p (g @ r) = dropWhile p g @ r" by (simp add: dropWhile_append1)
    moreover have "dropWhile p (rev r @ rev (dropWhile p g)) = dropWhile p (rev (dropWhile p g))"
    proof (rule dropWhile_append2)
      fix y
      assume "y \<in> set (rev r)"
      with assms(2) show "p y" by simp
    qed
    ultimately show ?thesis by (simp add: strip_by_def front)
  qed
qed

lemma takeWhile_prefix:
  "\<forall>y\<in>set pre. p y \<Longrightarrow> \<not> p x \<Longrightarrow>
   takeWhile p (pre @ x # xs) = pre \<and> dropWhile p (pre @ x # xs) = x # xs"
  by (induction pre) auto

lemma header_shape:
  assumes k: "k \<le> length (takeWhile (\<lambda>x. x = 32) a)"
    and j: "j \<le> length (takeWhile letter_or_blank (drop k a))"
    and i: "i \<le> length (takeWhile (\<lambda>x. x = 32) (drop j (drop k a)))"
    and d: "drop i (drop j (drop k a)) = x # xs"
    and x: "closing_glyph x"
  shows "takeWhile letter_or_blank a = take k a @ take j (drop k a) @ take i (drop j (drop k a))"
    and "dropWhile letter_or_blank a = x # xs"
    and "strip (take j (drop k a)) = strip (takeWhile letter_or_blank a)"
proof -
  let ?pre = "take k a @ take j (drop k a) @ take i (drop j (drop k a))"
  have a: "a = ?pre @ x # xs"
    using d by (metis append_take_drop_id append.assoc)
  have blank: "letter_or_blank 32" by (simp add: letter_or_blank_def)
  have 1: "\<forall>y\<in>set (take k a). y = 32" using k by (rule take_within_takeWhile)
  have 2: "\<forall>y\<in>set (take j (drop k a)). letter_or_blank y" using j by (rule take_within_takeWhile)
  have 3: "\<forall>y\<in>set (take i (drop j (drop k a))). y = 32" using i by (rule take_within_takeWhile)
  have pre: "\<forall>y\<in>set ?pre. letter_or_blank y" using 1 2 3 blank by auto
  have nx: "\<not> letter_or_blank x"
    using x by (auto simp: closing_glyph_def letter_or_blank_def is_upper_def is_lower_def)
  note split = takeWhile_prefix[of ?pre letter_or_blank x xs, OF pre nx]
  from split[THEN conjunct1] a show t: "takeWhile letter_or_blank a = ?pre" by simp
  from split[THEN conjunct2] a show "dropWhile letter_or_blank a = x # xs" by simp
  have sp: "is_space 32" by (simp add: is_space_def)
  have "strip ?pre = strip (take j (drop k a))"
    unfolding strip_def using 1 3 sp by (intro strip_by_pad) auto
  with t show "strip (take j (drop k a)) = strip (takeWhile letter_or_blank a)" by simp
qed

lemma header_tail_sound:
  assumes "s \<in> set (rmatch (seqs [Rep (Chr 32) 0 True,
      Grp (Rep (Cls [(65, 90), (97, 122), (32, 32)]) 1 False), Rep (Chr 32) 0 True,
      Cls [(9474, 9474), (9582, 9582), (9583, 9583)]]) (b, a, None))"
  shows "takeWhile letter_or_blank a \<noteq> [] \<and>
    (\<exists>x xs. dropWhile letter_or_blank a = x # xs \<and> closing_glyph x) \<and>
    strip (group1 s) = strip (takeWhile letter_or_blank a)"
proof -
  from assms obtain k where k: "k \<le> length (takeWhile (\<lambda>x. x = 32) a)"
    and s1: "s \<in> set (rmatch (seqs [Grp (Rep (Cls [(65, 90), (97, 122), (32, 32)]) 1 False),
        Rep (Chr 32) 0 True, Cls [(9474, 9474), (9582, 9582), (9583, 9583)]])
        (rev (take k a) @ b, drop k a, None))"
    unfolding header_tail1 by blast
  from s1 obtain j where j: "1 \<le> j" "j \<le> length (takeWhile letter_or_blank (drop k a))"
    and s2: "s \<in> set (rmatch (seqs [Rep (Chr 32) 0 True,
        Cls [(9474, 9474), (9582, 9582), (9583, 9583)]])
        (rev (take j (drop k a)) @ rev (take k a) @ b, drop j (drop k a),
         Some (take j (drop k a))))"
    unfolding header_tail2 letter_or_blank_ranges by blast
  from s2 obtain i x xs where i: "i \<le> length (takeWhile (\<lambda>x. x = 32) (drop j (drop k a)))"
    and d: "drop i (drop j (drop k a)) = x # xs" and x: "closing_glyph x"
    and s: "s = (x # rev (take i (drop j (drop k a))) @ rev (take j (drop k a)) @ rev (take k a) @ b,
                 xs, Some (take j (drop k a)))"
    unfolding header_tail3 closing_ranges by blast
  note shape = header_shape[OF k j(2) i d x]
  have "take j (drop k a) \<noteq> []"
    using j by (metis One_nat_def length_0_conv length_takeWhile_le length_take min.absorb2
        not_one_le_zero order_trans)
  with shape(1) have "takeWhile letter_or_blank a \<noteq> []" by simp
  moreover have "group1 s = take j (drop k a)" by (simp add: s)
  ultimately show ?thesis using shape(2,3) x by simp
qed

lemma header_tail_complete:
  assumes "takeWhile letter_or_blank a \<noteq> []"
    and "dropWhile letter_or_blank a = x # xs" and "closing_glyph x"
  shows "rmatch (seqs [Rep (Chr 32) 0 True,
      Grp (Rep (Cls [(65, 90), (97, 122), (32, 32)]) 1 False), Rep (Chr 32) 0 True,
      Cls [(9474, 9474), (9582, 9582), (9583, 9583)]]) (b, a, None) \<noteq> []"
proof -
  let ?j = "length (takeWhile letter_or_blank a)"
  let ?s = "(x # rev (take 0 (drop ?j (drop 0 a))) @ rev (take ?j (drop 0 a)) @ rev (take 0 a) @ b,
             xs, Some (take ?j (drop 0 a)))"
  have d: "drop ?j a = x # xs" using assms(2) by (simp add: drop_takeWhile_length)
  have j1: "1 \<le> ?j" using assms(1) by (simp add: Suc_le_eq)
  have "?s \<in> set (rmatch (seqs [Rep (Chr 32) 0 True,
        Cls [(9474, 9474), (9582, 9582), (9583, 9583)]])
        (rev (take ?j (drop 0 a)) @ rev (take 0 a) @ b, drop ?j (drop 0 a),
         Some (take ?j (drop 0 a))))"
    unfolding header_tail3 closing_ranges using d assms(3)
    by (intro exI[of _ 0] exI[of _ x] exI[of _ xs]) simp
  then have "?s \<in> set (rmatch (seqs [Grp (Rep (Cls [(65, 90), (97, 122), (32, 32)]) 1 False),
        Rep (Chr 32) 0 True, Cls [(9474, 9474), (9582, 9582), (9583, 9583)]])
        (rev (take 0 a) @ b, drop 0 a, None))"
    unfolding header_tail2 letter_or_blank_ranges using j1
    by (intro exI[of _ ?j]) simp
  then have "?s \<in> set (rmatch (seqs [Rep (Chr 32) 0 True,
      Grp (Rep (Cls [(65, 90), (97, 122), (32, 32)]) 1 False), Rep (Chr 32) 0 True,
      Cls [(9474, 9474), (9582, 9582), (9583, 9583)]]) (b, a, None))"
    unfolding header_tail1 by (intro exI[of _ 0]) simp
  then show ?thesis by auto
qed


lemma header_head:
  "(case rmatch header_pattern (b, a, None) of [] \<Rightarrow> None | st # x \<Rightarrow> Some (strip (group1 st))) =
   header_label_here a"
proof -
  define R where "R = [Rep (Chr 32) 0 True,
      Grp (Rep (Cls [(65, 90), (97, 122), (32, 32)]) 1 False), Rep (Chr 32) 0 True,
      Cls [(9474, 9474), (9582, 9582), (9583, 9583)]]"
  have p: "header_pattern =
      seqs (lit (u ''# '') # Cls [(9474, 9474), (9581, 9581), (9584, 9584)] # R)"
    by (simp add: header_pattern_def R_def)
  have R2: "R = hd R # hd (tl R) # tl (tl R)" by (simp add: R_def)
  have len: "length (u ''# '') = 2" by (simp add: u_def)
  have unfold: "rmatch header_pattern (b, a, None) =
      (if startswith a (u ''# '')
       then (case drop 2 a of
               [] \<Rightarrow> []
             | glyph # rest \<Rightarrow>
                 if opening_glyph glyph
                 then rmatch (seqs R) (glyph # rev (u ''# '') @ b, rest, None) else [])
       else [])"
  proof -
    have "rmatch (seqs (Cls [(9474, 9474), (9581, 9581), (9584, 9584)] # R)) st =
        concat (map (rmatch (seqs R)) (eat opening_glyph st))" for st
      by (subst R2, subst seqs_more) (simp add: rmatch_Cls_eat opening_ranges R2[symmetric])
    then show ?thesis
      by (cases "drop 2 a") (simp_all add: p seqs_more rmatch_lit len)
  qed
  show ?thesis
  proof (cases "startswith a (u ''# '')")
    case False
    then show ?thesis
      by (cases "drop 2 a") (simp_all add: unfold header_label_here_def Let_def)
  next
    case True
    show ?thesis
    proof (cases "drop 2 a")
      case Nil
      then show ?thesis by (simp add: unfold header_label_here_def)
    next
      case (Cons glyph rest)
      show ?thesis
      proof (cases "opening_glyph glyph")
        case False
        then show ?thesis using Cons by (simp add: unfold header_label_here_def Let_def)
      next
        case op: True
        let ?st = "(glyph # rev (u ''# '') @ b, rest, None :: pystr option)"
        have m: "rmatch header_pattern (b, a, None) = rmatch (seqs R) ?st"
          using True Cons op by (simp add: unfold)
        show ?thesis
        proof (cases "rmatch (seqs R) ?st")
          case Nil
          have "\<not> (takeWhile letter_or_blank rest \<noteq> [] \<and>
              dropWhile letter_or_blank rest \<noteq> [] \<and>
              closing_glyph (hd (dropWhile letter_or_blank rest)))"
          proof
            assume c: "takeWhile letter_or_blank rest \<noteq> [] \<and>
              dropWhile letter_or_blank rest \<noteq> [] \<and>
              closing_glyph (hd (dropWhile letter_or_blank rest))"
            then obtain x xs where "dropWhile letter_or_blank rest = x # xs" "closing_glyph x"
              by (cases "dropWhile letter_or_blank rest") auto
            with c Nil header_tail_complete[of rest x xs "glyph # rev (u ''# '') @ b"]
            show False by (simp add: R_def)
          qed
          then show ?thesis using Cons Nil
            by (auto simp: m header_label_here_def Let_def)
        next
          case (Cons st others)
          then have "st \<in> set (rmatch (seqs R) ?st)" by simp
          from header_tail_sound[OF this[unfolded R_def]]
          obtain x xs where l: "takeWhile letter_or_blank rest \<noteq> []"
            and d: "dropWhile letter_or_blank rest = x # xs" and c: "closing_glyph x"
            and g: "strip (group1 st) = strip (takeWhile letter_or_blank rest)"
            by blast
          have "\<exists>y\<in>set rest. \<not> letter_or_blank y"
            using d by (metis dropWhile_eq_Nil_conv list.distinct(1))
          then have "header_label_here a = Some (strip (takeWhile letter_or_blank rest))"
            using True op l d c \<open>drop 2 a = glyph # rest\<close>
            by (simp add: header_label_here_def Let_def)
          then show ?thesis using Cons g by (simp add: m)
        qed
      qed
    qed
  qed
qed

lemma search_header:
  "map_option (\<lambda>m. strip (group1 m)) (re_search header_pattern text) =
   first_occurrence header_label_here text"
  unfolding re_search_def
  by (rule search_first) (rule header_head)

lemma widgets_class: "rule_class_name widgets_example = Some (u ''foo'')"
  by (simp add: rule_class_name_def widgets_example_def class_name_here_def startswith_def
        name_char_def is_upper_def is_lower_def is_digit_def lower_def lower_chr_def u_def)

lemma widgets_header: "rule_header_label widgets_example = Some (u ''widgets'')"
  by (simp add: rule_header_label_def widgets_example_def header_label_here_def startswith_def
        letter_or_blank_def opening_glyph_def closing_glyph_def is_upper_def is_lower_def
        lower_def lower_chr_def strip_def strip_by_def is_space_def replace_chr_def u_def)

lemma helper_function: "rule_function_name helper_provider = Some (u ''helper'')"
  by (simp add: rule_function_name_def helper_provider_def function_name_here_def startswith_def
        name_char_def is_upper_def is_lower_def is_digit_def u_def)

lemma helper_no_class: "rule_class_name helper_provider = None"
  by (simp add: rule_class_name_def helper_provider_def class_name_here_def startswith_def u_def)

lemma helper_no_header: "rule_header_label helper_provider = None"
  by (simp add: rule_header_label_def helper_provider_def header_label_here_def startswith_def
        opening_glyph_def u_def)

lemma user_no_rule:
  "rule_class_name helper_user = None \<and> rule_header_label helper_user = None \<and>
   rule_function_name helper_user = None"
  by (simp add: rule_class_name_def rule_header_label_def rule_function_name_def helper_user_def
        class_name_here_def header_label_here_def function_name_here_def startswith_def
        opening_glyph_def u_def)

text \<open>
  C7. \<open>_extract_module_name\<close> is the first applicable of the three rules of the
  specification in the order class name, header label, function name, and the default
  when none applies. On the text with a header labelled Widgets and a class Foo both the
  class rule and the header rule apply (giving foo and widgets), and the result is foo;
  on \<open>helper_provider\<close> only the function rule applies, and on \<open>helper_user\<close> none.
\<close>

theorem extract_module_name_priority:
  "extract_module_name text default_name =
     first_applicable [rule_class_name, rule_header_label, rule_function_name] text default_name \<and>
   rule_class_name widgets_example = Some (u ''foo'') \<and>
   rule_header_label widgets_example = Some (u ''widgets'') \<and>
   extract_module_name widgets_example default_name = u ''foo'' \<and>
   extract_module_name helper_provider default_name = u ''helper'' \<and>
   extract_module_name helper_user default_name = default_name"
proof -
  have eq: "extract_module_name t d =
      first_applicable [rule_class_name, rule_header_label, rule_function_name] t d" for t d
  proof -
    have c: "rule_class_name t = map_option (\<lambda>m. lower (group1 m)) (re_search class_pattern t)"
      by (simp add: rule_class_name_def search_class[symmetric] option.map_comp comp_def)
    have h: "rule_header_label t =
        map_option (\<lambda>m. replace_chr 32 95 (lower (strip (group1 m)))) (re_search header_pattern t)"
      by (simp add: rule_header_label_def search_header[symmetric] option.map_comp comp_def)
    have f: "rule_function_name t = map_option group1 (re_search func_pattern t)"
      by (simp add: rule_function_name_def search_function)
    show ?thesis
      by (simp add: extract_module_name_def c h f split: option.splits)
  qed
  have "extract_module_name widgets_example default_name = u ''foo''"
    by (simp add: eq widgets_class)
  moreover have "extract_module_name helper_provider default_name = u ''helper''"
    by (simp add: eq helper_no_class helper_no_header helper_function)
  moreover have "extract_module_name helper_user default_name = default_name"
    by (simp add: eq user_no_rule)
  ultimately show ?thesis using eq widgets_class widgets_header by simp
qed

section \<open>Properties of the dependency graph and of fragment parsing\<close>

lemma edges_add_node: "edges (add_node n g) = edges g"
  by (simp add: add_node_def)

lemma no_self_edge_add_edge:
  "no_self_edge g \<Longrightarrow> a \<noteq> b \<Longrightarrow> no_self_edge (add_edge a b g)"
  by (simp add: no_self_edge_def add_edge_def Let_def edges_add_node)

lemma edge_loop_no_self_edge:
  "no_self_edge g \<Longrightarrow> \<forall>(j, other) \<in> set js. j \<noteq> i \<longrightarrow> name other \<noteq> name m \<Longrightarrow>
   edge_loop parse refs i m js g = Inr g' \<Longrightarrow> no_self_edge g'"
proof (induction js arbitrary: g)
  case Nil
  then show ?case by simp
next
  case (Cons p js)
  obtain j other where p: "p = (j, other)" by (cases p)
  from Cons.prems(2) have rest: "\<forall>(j, other) \<in> set js. j \<noteq> i \<longrightarrow> name other \<noteq> name m"
    by simp
  show ?case
  proof (cases "i = j")
    case True
    with Cons.prems p have "edge_loop parse refs i m js g = Inr g'" by simp
    from Cons.IH[OF Cons.prems(1) rest this] show ?thesis .
  next
    case False
    with Cons.prems(2) p have ne: "name m \<noteq> name other" by auto
    from Cons.prems(3) p False obtain tree where
      t: "ast_parse parse (content other) = Inr tree"
      by (auto split: sum.splits)
    show ?thesis
    proof (cases "refs \<inter> extract_defined_names (ModNode tree) \<noteq> {}")
      case True
      with Cons.prems(3) p False t
      have "edge_loop parse refs i m js (add_edge (name m) (name other) g) = Inr g'" by simp
      moreover have "no_self_edge (add_edge (name m) (name other) g)"
        using Cons.prems(1) ne by (rule no_self_edge_add_edge)
      ultimately show ?thesis using Cons.IH rest by blast
    next
      case F: False
      with Cons.prems(3) p False t have "edge_loop parse refs i m js g = Inr g'" by simp
      from Cons.IH[OF Cons.prems(1) rest this] show ?thesis .
    qed
  qed
qed

lemma module_loop_no_self_edge:
  "no_self_edge g \<Longrightarrow>
   \<forall>(i, m) \<in> set ims. \<forall>(j, other) \<in> set (enumerate 0 ms). j \<noteq> i \<longrightarrow> name other \<noteq> name m \<Longrightarrow>
   module_loop parse ms ims g = Inr g' \<Longrightarrow> no_self_edge g'"
proof (induction ims arbitrary: g)
  case Nil
  then show ?case by simp
next
  case (Cons p ims)
  obtain i m where p: "p = (i, m)" by (cases p)
  from Cons.prems(3) p obtain tree g1 where
    t: "ast_parse parse (content m) = Inr tree"
    and e: "edge_loop parse (extract_referenced_names (ModNode tree)) i m (enumerate 0 ms) g = Inr g1"
    and r: "module_loop parse ms ims g1 = Inr g'"
    by (auto split: sum.splits)
  from Cons.prems(2) p have
    "\<forall>(j, other) \<in> set (enumerate 0 ms). j \<noteq> i \<longrightarrow> name other \<noteq> name m" by simp
  from edge_loop_no_self_edge[OF Cons.prems(1) this e] have "no_self_edge g1" .
  moreover from Cons.prems(2) have
    "\<forall>(i, m) \<in> set ims. \<forall>(j, other) \<in> set (enumerate 0 ms). j \<noteq> i \<longrightarrow> name other \<noteq> name m"
    by simp
  ultimately show ?case using Cons.IH r by blast
qed

lemma edges_initial: "edges (foldl (\<lambda>g m. add_node (name m) g) g0 ms) = edges g0"
  by (induction ms arbitrary: g0) (simp_all add: edges_add_node)

text \<open>
  C4, amended. For every list of candidate modules whose names are pairwise distinct, a
  dependency graph that \<open>build_dependency_graph\<close> returns has no edge from a node to
  itself.
\<close>

theorem build_dependency_graph_no_self_edge:
  assumes "distinct (map name ms)"
    and "build_dependency_graph parse ms = Inr g"
  shows "(a, a) \<notin> set (edges g)"
proof -
  have "no_self_edge g"
  proof -
  let ?g0 = "foldl (\<lambda>g m. add_node (name m) g) empty_graph ms"
  have "no_self_edge ?g0"
    by (simp add: no_self_edge_def edges_initial empty_graph_def)
  moreover have "\<forall>(i, m) \<in> set (enumerate 0 ms).
      \<forall>(j, other) \<in> set (enumerate 0 ms). j \<noteq> i \<longrightarrow> name other \<noteq> name m"
  proof (clarify)
    fix i m j other
    assume i: "(i, m) \<in> set (enumerate 0 ms)" and j: "(j, other) \<in> set (enumerate 0 ms)"
      and ne: "j \<noteq> i" and eq: "name other = name m"
    from i j have "i < length ms" "m = ms ! i" "j < length ms" "other = ms ! j"
      by (auto simp: in_set_enumerate_eq)
    with eq have "map name ms ! j = map name ms ! i" by simp
    moreover have "j < length (map name ms)" "i < length (map name ms)"
      using \<open>i < length ms\<close> \<open>j < length ms\<close> by simp_all
    ultimately have "j = i"
      using assms(1) nth_eq_iff_index_eq[of "map name ms" j i] by blast
    with ne show False by simp
  qed
  ultimately show ?thesis
    using assms(2) module_loop_no_self_edge unfolding build_dependency_graph_def by blast
  qed
  then show ?thesis by (auto simp: no_self_edge_def list_all_iff)
qed


lemmas graph_eval = build_dependency_graph_def ast_parse_def extract_referenced_names_def
  extract_defined_names_def walk_def add_edge_def add_node_def empty_graph_def new_module_def

lemma parse_foo_user: "example_parse foo_user = Inr helper_call"
  by (simp add: parse_eval)

lemma parse_foo_provider: "example_parse foo_provider = Inr (helper_def 2)"
  by (simp add: parse_eval)

lemma parse_helper_user: "example_parse helper_user = Inr helper_call"
  by (simp add: parse_eval)

lemma parse_helper_provider: "example_parse helper_provider = Inr (helper_def 1)"
  by (simp add: parse_eval)

text \<open>
  C4, as the claim states it, fails: two distinct modules, both named foo by
  \<open>_extract_module_name\<close>, of which the first calls a function that the second defines,
  give a graph with the single node foo and the edge from foo to foo.
\<close>

theorem build_dependency_graph_counterexample:
  "extract_module_name foo_user (u ''module_0'') = u ''foo'' \<and>
   extract_module_name foo_provider (u ''module_1'') = u ''foo'' \<and>
   build_dependency_graph example_parse
     [new_module (u ''foo'') 0 1 foo_user, new_module (u ''foo'') 20 22 foo_provider] =
     Inr \<lparr>nodes = [u ''foo''], edges = [(u ''foo'', u ''foo'')]\<rparr>"
proof (intro conjI)
  show "extract_module_name foo_user (u ''module_0'') = u ''foo''"
    by (simp add: extract_module_name_def foo_user_def class_pattern_def regex_eval
          lower_def lower_chr_def is_upper_def)
  show "extract_module_name foo_provider (u ''module_1'') = u ''foo''"
    by (simp add: extract_module_name_def foo_provider_def class_pattern_def regex_eval
          lower_def lower_chr_def is_upper_def)
  show "build_dependency_graph example_parse
     [new_module (u ''foo'') 0 1 foo_user, new_module (u ''foo'') 20 22 foo_provider] =
     Inr \<lparr>nodes = [u ''foo''], edges = [(u ''foo'', u ''foo'')]\<rparr>"
    by (simp add: graph_eval parse_foo_user parse_foo_provider helper_call_def helper_def_def
          u_def)
qed

theorem build_dependency_graph_no_self_edge_witness:
  "distinct (map name [new_module (u ''module_0'') 0 0 helper_user,
                       new_module (u ''helper'') 20 21 helper_provider]) \<and>
   build_dependency_graph example_parse
     [new_module (u ''module_0'') 0 0 helper_user,
      new_module (u ''helper'') 20 21 helper_provider] =
     Inr \<lparr>nodes = [u ''module_0'', u ''helper''], edges = [(u ''module_0'', u ''helper'')]\<rparr> \<and>
   (u ''helper'', u ''helper'') \<notin>
     set (edges \<lparr>nodes = [u ''module_0'', u ''helper''], edges = [(u ''module_0'', u ''helper'')]\<rparr>)"
proof -
  let ?ms = "[new_module (u ''module_0'') 0 0 helper_user,
              new_module (u ''helper'') 20 21 helper_provider]"
  let ?g = "\<lparr>nodes = [u ''module_0'', u ''helper''], edges = [(u ''module_0'', u ''helper'')]\<rparr>"
  have d: "distinct (map name ?ms)" by (simp add: new_module_def u_def)
  have b: "build_dependency_graph example_parse ?ms = Inr ?g"
    by (simp add: graph_eval parse_helper_user parse_helper_provider helper_call_def
          helper_def_def u_def)
  from build_dependency_graph_no_self_edge[OF d b, of "u ''helper''"] d b show ?thesis
    by blast
qed


lemma edge_loop_error:
  "edge_loop parse refs i m js g = Inl e \<Longrightarrow> \<exists>(j, other) \<in> set js. parse (content other) = Inl e"
proof (induction js arbitrary: g)
  case Nil
  then show ?case by simp
next
  case (Cons p js)
  obtain j other where p: "p = (j, other)" by (cases p)
  show ?case
  proof (cases "i = j")
    case True
    with Cons.prems p have "edge_loop parse refs i m js g = Inl e" by simp
    from Cons.IH[OF this] show ?thesis by auto
  next
    case False
    show ?thesis
    proof (cases "parse (content other)")
      case (Inl e')
      with Cons.prems p False have "e' = e" by (simp add: ast_parse_def)
      with Inl p show ?thesis by auto
    next
      case (Inr tree)
      with Cons.prems p False obtain h where "edge_loop parse refs i m js h = Inl e"
        by (auto simp: ast_parse_def split: if_splits)
      from Cons.IH[OF this] show ?thesis by auto
    qed
  qed
qed

lemma module_loop_error:
  "module_loop parse ms ims g = Inl e \<Longrightarrow>
   (\<exists>(i, m) \<in> set ims. parse (content m) = Inl e) \<or>
   (\<exists>(j, other) \<in> set (enumerate 0 ms). parse (content other) = Inl e)"
proof (induction ims arbitrary: g)
  case Nil
  then show ?case by simp
next
  case (Cons p ims)
  obtain i m where p: "p = (i, m)" by (cases p)
  show ?case
  proof (cases "parse (content m)")
    case (Inl e')
    with Cons.prems p have "e' = e" by (simp add: ast_parse_def)
    with Inl p show ?thesis by auto
  next
    case (Inr tree)
    show ?thesis
    proof (cases "edge_loop parse (extract_referenced_names (ModNode tree)) i m (enumerate 0 ms) g")
      case L: (Inl e')
      with Cons.prems p Inr have "e' = e" by (simp add: ast_parse_def)
      with L edge_loop_error show ?thesis by blast
    next
      case R: (Inr g1)
      with Cons.prems p Inr have "module_loop parse ms ims g1 = Inl e" by (simp add: ast_parse_def)
      from Cons.IH[OF this] show ?thesis by auto
    qed
  qed
qed

lemma module_loop_raises:
  "\<exists>(i, m) \<in> set ims. isl (parse (content m)) \<Longrightarrow> isl (module_loop parse ms ims g)"
proof (induction ims arbitrary: g)
  case Nil
  then show ?case by simp
next
  case (Cons p ims)
  obtain i m where p: "p = (i, m)" by (cases p)
  show ?case
  proof (cases "parse (content m)")
    case (Inl e)
    then show ?thesis using p by (simp add: ast_parse_def)
  next
    case (Inr tree)
    with Cons.prems p have "\<exists>(i, m) \<in> set ims. isl (parse (content m))" by auto
    from Cons.IH[OF this] show ?thesis
      using p Inr by (auto simp: ast_parse_def split: sum.splits)
  qed
qed

lemma edge_loop_completes:
  "\<forall>(j, other) \<in> set js. \<not> isl (parse (content other)) \<Longrightarrow>
   \<not> isl (edge_loop parse refs i m js g)"
proof (induction js arbitrary: g)
  case Nil
  then show ?case by simp
next
  case (Cons p js)
  obtain j other where p: "p = (j, other)" by (cases p)
  with Cons.prems obtain tree where t: "parse (content other) = Inr tree"
    by (cases "parse (content other)") auto
  from Cons.prems have "\<forall>(j, other) \<in> set js. \<not> isl (parse (content other))" by simp
  from Cons.IH[OF this] have ih: "\<not> isl (edge_loop parse refs i m js h)" for h .
  show ?case
  proof (cases "i = j")
    case True
    then show ?thesis using p ih by simp
  next
    case False
    then show ?thesis using p t ih by (simp add: ast_parse_def)
  qed
qed

lemma module_loop_completes:
  "\<forall>(i, m) \<in> set ims. \<not> isl (parse (content m)) \<Longrightarrow>
   \<forall>(j, other) \<in> set (enumerate 0 ms). \<not> isl (parse (content other)) \<Longrightarrow>
   \<not> isl (module_loop parse ms ims g)"
proof (induction ims arbitrary: g)
  case Nil
  then show ?case by simp
next
  case (Cons p ims)
  obtain i m where p: "p = (i, m)" by (cases p)
  with Cons.prems(1) obtain tree where t: "parse (content m) = Inr tree"
    by (cases "parse (content m)") auto
  from edge_loop_completes[OF Cons.prems(2)] obtain g1 where
    e: "edge_loop parse (extract_referenced_names (ModNode tree)) i m (enumerate 0 ms) g = Inr g1"
    by (metis isl_def sum.exhaust_sel sum.collapse(2))
  from Cons.prems(1) have "\<forall>(i, m) \<in> set ims. \<not> isl (parse (content m))" by simp
  from Cons.IH[OF this Cons.prems(2)] show ?case using p t e by (simp add: ast_parse_def)
qed

lemma enumerate_snd: "(i, m) \<in> set (enumerate n ms) \<Longrightarrow> m \<in> set ms"
  by (auto simp: in_set_enumerate_eq)

lemma enumerate_has: "m \<in> set ms \<Longrightarrow> \<exists>i. (i, m) \<in> set (enumerate 0 ms)"
proof -
  assume "m \<in> set ms"
  then obtain i where "i < length ms" "ms ! i = m" by (auto simp: in_set_conv_nth)
  then have "(i, m) \<in> set (enumerate 0 ms)" by (simp add: in_set_enumerate_eq)
  then show ?thesis ..
qed

lemma build_dependency_graph_raises:
  assumes "\<exists>m\<in>set ms. isl (parse (content m))"
  shows "isl (build_dependency_graph parse ms)"
proof -
  from assms enumerate_has have "\<exists>(i, m) \<in> set (enumerate 0 ms). isl (parse (content m))"
    by fastforce
  from module_loop_raises[OF this] show ?thesis
    unfolding build_dependency_graph_def .
qed

lemma build_dependency_graph_error:
  assumes "build_dependency_graph parse ms = Inl e"
  shows "\<exists>m\<in>set ms. parse (content m) = Inl e"
proof -
  from assms module_loop_error have
    "\<exists>(i, m) \<in> set (enumerate 0 ms). parse (content m) = Inl e"
    unfolding build_dependency_graph_def by blast
  then show ?thesis by (auto dest: enumerate_snd)
qed

lemma build_dependency_graph_completes:
  assumes "\<forall>m\<in>set ms. \<not> isl (parse (content m))"
  shows "\<not> isl (build_dependency_graph parse ms)"
proof -
  from assms have "\<forall>(i, m) \<in> set (enumerate 0 ms). \<not> isl (parse (content m))"
    by (auto dest: enumerate_snd)
  from module_loop_completes[OF this this] show ?thesis
    unfolding build_dependency_graph_def .
qed

lemma extract_semantic_purpose_raises:
  "\<exists>m\<in>set ms. isl (parse (content m)) \<Longrightarrow> isl (extract_semantic_purpose table parse ms)"
proof (induction ms)
  case Nil
  then show ?case by simp
next
  case (Cons m ms)
  show ?case
  proof (cases "parse (content m)")
    case (Inl e)
    then show ?thesis by (simp add: ast_parse_def)
  next
    case (Inr tree)
    with Cons.prems have "\<exists>m\<in>set ms. isl (parse (content m))" by auto
    from Cons.IH[OF this] show ?thesis
      using Inr by (auto simp: ast_parse_def Let_def split: sum.splits)
  qed
qed

lemma extract_semantic_purpose_error:
  "extract_semantic_purpose table parse ms = Inl e \<Longrightarrow> \<exists>m\<in>set ms. parse (content m) = Inl e"
proof (induction ms)
  case Nil
  then show ?case by simp
next
  case (Cons m ms)
  show ?case
  proof (cases "parse (content m)")
    case (Inl e')
    with Cons.prems have "e' = e" by (simp add: ast_parse_def)
    with Inl show ?thesis by simp
  next
    case (Inr tree)
    with Cons.prems have "extract_semantic_purpose table parse ms = Inl e"
      by (auto simp: ast_parse_def Let_def split: sum.splits)
    from Cons.IH[OF this] show ?thesis by auto
  qed
qed

lemma extract_semantic_purpose_completes:
  "\<forall>m\<in>set ms. \<not> isl (parse (content m)) \<Longrightarrow> \<not> isl (extract_semantic_purpose table parse ms)"
proof (induction ms)
  case Nil
  then show ?case by simp
next
  case (Cons m ms)
  then obtain tree where "parse (content m) = Inr tree"
    by (cases "parse (content m)") auto
  moreover from Cons have "\<not> isl (extract_semantic_purpose table parse ms)" by simp
  ultimately show ?case by (auto simp: ast_parse_def Let_def split: sum.splits)
qed

text \<open>
  C2, amended. When some module fragment fails to parse in isolation, building the
  dependency graph raises, so does the semantic stage, and an analysis run whose
  detection produced these modules ends with an error. An error of either stage is the
  one that parsing some fragment raised. When every fragment parses, both stages
  complete.
\<close>

theorem fragment_parse_failure:
  "((\<exists>m\<in>set ms. isl (parse (content m))) \<longrightarrow>
      isl (build_dependency_graph parse ms) \<and>
      isl (extract_semantic_purpose table parse ms) \<and>
      (detect_module_boundaries patterns parse source_code = Inr ms \<longrightarrow>
         isl (analyze patterns table parse source_code))) \<and>
   (build_dependency_graph parse ms = Inl e \<longrightarrow> (\<exists>m\<in>set ms. parse (content m) = Inl e)) \<and>
   (extract_semantic_purpose table parse ms = Inl e \<longrightarrow> (\<exists>m\<in>set ms. parse (content m) = Inl e)) \<and>
   ((\<forall>m\<in>set ms. \<not> isl (parse (content m))) \<longrightarrow>
      \<not> isl (build_dependency_graph parse ms) \<and>
      \<not> isl (extract_semantic_purpose table parse ms))"
proof (intro conjI impI)
  assume bad: "\<exists>m\<in>set ms. isl (parse (content m))"
  then show b: "isl (build_dependency_graph parse ms)"
    by (rule build_dependency_graph_raises)
  from bad show "isl (extract_semantic_purpose table parse ms)"
    by (rule extract_semantic_purpose_raises)
  assume d: "detect_module_boundaries patterns parse source_code = Inr ms"
  show "isl (analyze patterns table parse source_code)"
    using b d by (auto simp: analyze_def split: sum.splits)
next
  assume "build_dependency_graph parse ms = Inl e"
  then show "\<exists>m\<in>set ms. parse (content m) = Inl e" by (rule build_dependency_graph_error)
next
  assume "extract_semantic_purpose table parse ms = Inl e"
  then show "\<exists>m\<in>set ms. parse (content m) = Inl e" by (rule extract_semantic_purpose_error)
next
  assume good: "\<forall>m\<in>set ms. \<not> isl (parse (content m))"
  then show "\<not> isl (build_dependency_graph parse ms)"
    by (rule build_dependency_graph_completes)
  from good show "\<not> isl (extract_semantic_purpose table parse ms)"
    by (rule extract_semantic_purpose_completes)
qed


lemma parse_divided_function:
  "example_parse divided_function =
     Inr (Module [FunctionDef (u ''_f'') (plain_parameters [])
                     [Assign [Name (u ''x'') Store] (Constant (u ''1'')),
                      Return (Some (Name (u ''x'') Load))] [] None 1])"
  by (simp add: parse_eval)

lemma parse_divided_tail: "example_parse divided_tail = Inl SyntaxError"
  by (simp add: parse_eval)

lemma split_divided:
  "split 10 divided_function =
     [u ''def _f():'', u ''    x = 1'', [], u ''# ---- a ----'', u ''    return x'']"
  by (simp add: divided_function_def divided_tail_def u_def)

lemma sections_divided:
  "find_section_boundaries MODULE_BOUNDARY_PATTERNS
     [u ''def _f():'', u ''    x = 1'', [], u ''# ---- a ----'', u ''    return x''] = [3]"
  by (simp add: find_section_boundaries_def MODULE_BOUNDARY_PATTERNS_def regex_eval
        enumerate_eq_zip rule_chars_def call_suffix_def upt_rec)

lemma defs_divided:
  "find_definition_boundaries (ModNode (Module [FunctionDef (u ''_f'') (plain_parameters [])
       [Assign [Name (u ''x'') Store] (Constant (u ''1'')),
        Return (Some (Name (u ''x'') Load))] [] None 1])) = Inr []"
  by (simp add: find_definition_boundaries_def walk_def startswith_def u_def)

lemma create_divided:
  "create_module_definitions MODULE_BOUNDARY_PATTERNS [[3]]
     [u ''def _f():'', u ''    x = 1'', [], u ''# ---- a ----'', u ''    return x''] =
     Inr [new_module (u ''module_0'') 3 4 divided_tail]"
  by (simp add: create_module_definitions_def py_index_def py_slice_def clamp_index_def
        blank_line_at_def strip_def strip_by_def is_space_def MODULE_BOUNDARY_PATTERNS_def
        regex_eval rule_chars_def call_suffix_def extract_module_name_def class_pattern_def
        header_pattern_def func_pattern_def divided_tail_def Let_def)

lemma detect_divided:
  "detect_module_boundaries MODULE_BOUNDARY_PATTERNS example_parse divided_function =
     Inr [new_module (u ''module_0'') 3 4 divided_tail]"
  by (simp add: detect_module_boundaries_def ast_parse_def parse_divided_function split_divided
        sections_divided defs_divided[simplified] group_related_boundaries_def close_group_def
        create_divided)

text \<open>
  C2, as the claim states it, fails: the source \<open>divided_function\<close> parses as a whole,
  detection yields one module made of its last two lines, that fragment does not parse,
  and both the dependency graph and the whole analysis run end with \<open>SyntaxError\<close>.
\<close>

theorem fragment_parse_failure_counterexample:
  "detect_module_boundaries MODULE_BOUNDARY_PATTERNS example_parse divided_function =
     Inr [new_module (u ''module_0'') 3 4 divided_tail] \<and>
   example_parse divided_tail = Inl SyntaxError \<and>
   build_dependency_graph example_parse [new_module (u ''module_0'') 3 4 divided_tail] =
     Inl SyntaxError \<and>
   analyze MODULE_BOUNDARY_PATTERNS MODULE_PURPOSE_INDICATORS example_parse divided_function =
     Inl SyntaxError"
proof -
  have b: "build_dependency_graph example_parse [new_module (u ''module_0'') 3 4 divided_tail] =
      Inl SyntaxError"
    by (simp add: build_dependency_graph_def ast_parse_def new_module_def parse_divided_tail)
  have i: "\<exists>t. analyze_imports example_parse divided_function = Inr t"
    by (simp add: analyze_imports_def ast_parse_def parse_divided_function)
  then have "analyze MODULE_BOUNDARY_PATTERNS MODULE_PURPOSE_INDICATORS example_parse
      divided_function = Inl SyntaxError"
    using detect_divided b by (auto simp: analyze_def)
  with detect_divided parse_divided_tail b show ?thesis by simp
qed

theorem fragment_parse_failure_witness:
  "example_parse divided_tail = Inl SyntaxError \<and>
   detect_module_boundaries MODULE_BOUNDARY_PATTERNS example_parse divided_function =
     Inr [new_module (u ''module_0'') 3 4 divided_tail] \<and>
   extract_semantic_purpose MODULE_PURPOSE_INDICATORS example_parse
     [new_module (u ''module_0'') 3 4 divided_tail] = Inl SyntaxError \<and>
   isl (analyze MODULE_BOUNDARY_PATTERNS MODULE_PURPOSE_INDICATORS example_parse
     divided_function) \<and>
   example_parse helper_user = Inr helper_call \<and>
   example_parse helper_provider = Inr (helper_def 1) \<and>
   (\<exists>ms'. extract_semantic_purpose MODULE_PURPOSE_INDICATORS example_parse
      [new_module (u ''module_0'') 0 0 helper_user,
       new_module (u ''helper'') 20 21 helper_provider] = Inr ms')"
proof -
  let ?bad = "[new_module (u ''module_0'') 3 4 divided_tail]"
  let ?good = "[new_module (u ''module_0'') 0 0 helper_user,
      new_module (u ''helper'') 20 21 helper_provider]"
  have bad: "\<exists>m\<in>set ?bad. isl (example_parse (content m))"
    by (simp add: new_module_def parse_divided_tail)
  have good: "\<forall>m\<in>set ?good. \<not> isl (example_parse (content m))"
    by (simp add: new_module_def parse_helper_user parse_helper_provider)
  note bad_case = fragment_parse_failure[of ?bad example_parse
      MODULE_PURPOSE_INDICATORS MODULE_BOUNDARY_PATTERNS divided_function]
  from bad_case bad have raised: "isl (extract_semantic_purpose MODULE_PURPOSE_INDICATORS
      example_parse ?bad)" by blast
  then obtain e where e: "extract_semantic_purpose MODULE_PURPOSE_INDICATORS
      example_parse ?bad = Inl e" by (auto simp: isl_def)
  with bad_case[of e] have "\<exists>m\<in>set ?bad. example_parse (content m) = Inl e" by blast
  then have "e = SyntaxError" by (simp add: new_module_def parse_divided_tail)
  with e have 1: "extract_semantic_purpose MODULE_PURPOSE_INDICATORS example_parse ?bad =
      Inl SyntaxError" by simp
  from bad_case bad detect_divided
  have 2: "isl (analyze MODULE_BOUNDARY_PATTERNS MODULE_PURPOSE_INDICATORS example_parse
      divided_function)" by blast
  from fragment_parse_failure[of ?good example_parse
      MODULE_PURPOSE_INDICATORS MODULE_BOUNDARY_PATTERNS divided_function] good
  have "\<not> isl (extract_semantic_purpose MODULE_PURPOSE_INDICATORS example_parse ?good)"
    by blast
  then have 3: "\<exists>ms'. extract_semantic_purpose MODULE_PURPOSE_INDICATORS example_parse
      ?good = Inr ms'"
    by (cases "extract_semantic_purpose MODULE_PURPOSE_INDICATORS example_parse ?good") auto
  from 1 2 3 detect_divided parse_divided_tail parse_helper_user parse_helper_provider
  show ?thesis by (intro conjI)
qed


section \<open>Properties of the semantic purpose\<close>

lemma strip_by_Nil_iff: "strip_by p s = [] \<longleftrightarrow> list_all p s"
proof -
  let ?y = "dropWhile p s"
  have "strip_by p s = [] \<longleftrightarrow> list_all p ?y"
    by (simp add: strip_by_def dropWhile_eq_Nil_conv list_all_iff)
  also have "\<dots> \<longleftrightarrow> ?y = []"
  proof
    assume a: "list_all p ?y"
    show "?y = []"
    proof (rule ccontr)
      assume ne: "?y \<noteq> []"
      then have "\<not> p (hd ?y)" by (rule hd_dropWhile)
      moreover from ne have "hd ?y \<in> set ?y" by (rule hd_in_set)
      ultimately show False using a unfolding list_all_iff by blast
    qed
  next
    assume e: "?y = []"
    show "list_all p ?y" unfolding e by simp
  qed
  also have "\<dots> \<longleftrightarrow> list_all p s"
    by (simp add: dropWhile_eq_Nil_conv list_all_iff)
  finally show ?thesis .
qed

lemma strip_by_prefix: "\<exists>zs. dropWhile p s = strip_by p s @ zs"
proof -
  let ?y = "dropWhile p s"
  have "rev ?y = takeWhile p (rev ?y) @ dropWhile p (rev ?y)" by simp
  then have "?y = rev (dropWhile p (rev ?y)) @ rev (takeWhile p (rev ?y))"
    by (metis rev_append rev_rev_ident)
  then show ?thesis unfolding strip_by_def by blast
qed

lemma strip_by_hd: "strip_by p s \<noteq> [] \<Longrightarrow> \<not> p (hd (strip_by p s))"
proof -
  assume ne: "strip_by p s \<noteq> []"
  from strip_by_prefix obtain zs where z: "dropWhile p s = strip_by p s @ zs" by blast
  with ne have "dropWhile p s \<noteq> []" by auto
  then have "\<not> p (hd (dropWhile p s))" by (rule hd_dropWhile)
  with z ne show ?thesis by simp
qed

lemma first_line_Cons: "c \<noteq> 10 \<Longrightarrow> \<exists>t. first_line (c # cs) = c # t"
  by (cases "split 10 cs") (simp_all add: first_line_def)

lemma strip_first_line:
  assumes "strip x \<noteq> []"
  shows "strip (first_line (strip x)) \<noteq> []"
proof -
  from assms obtain c cs where d: "strip x = c # cs" by (cases "strip x") auto
  from strip_by_hd[of is_space x] assms d have c: "\<not> is_space c" by (simp add: strip_def)
  then have "c \<noteq> 10" by (auto simp: is_space_def)
  from first_line_Cons[OF this] obtain t where "first_line (c # cs) = c # t" by blast
  with c d show ?thesis by (simp add: strip_def strip_by_Nil_iff)
qed

lemma re_search_from_Some:
  "re_search_from r b a = Some st \<Longrightarrow> \<exists>b' a'. st \<in> set (rmatch r (b', a', None))"
proof (induction r b a rule: re_search_from.induct)
  case (1 r b a)
  show ?case
  proof (cases "rmatch r (b, a, None)")
    case Nil
    with "1.prems" obtain c cs where a: "a = c # cs"
      and s: "re_search_from r (c # b) cs = Some st"
      by (cases a) (auto simp: re_search_from.simps[of r b a])
    from "1.IH"[OF Nil a s] show ?thesis .
  next
    case (Cons x xs)
    with "1.prems" have "st = x" by (simp add: re_search_from.simps[of r b a])
    with Cons have "st \<in> set (rmatch r (b, a, None))" by simp
    then show ?thesis by blast
  qed
qed

lemma rmatch_comment:
  assumes "st \<in> set (rmatch comment_pattern (b, a, None))"
  shows "\<exists>c t. group1 st = c # t \<and> in_ranges [(65, 90), (97, 122)] c"
proof -
  from assms obtain c cs st1 where a: "a = 35 # 32 # c # cs"
    and c: "in_ranges [(65, 90), (97, 122)] c"
    and r: "st1 \<in> set (rep_loop (rmatch Dot) True 0 (length cs) (c # 32 # 35 # b, cs, None))"
    and st: "st = capture (32 # 35 # b, c # cs, None) st1"
    by (auto simp: comment_pattern_def seqs_def lit_def u_def eat_cases)
  from r have "st1 \<in> set (rep_loop (eat (\<lambda>x. x \<noteq> 10)) True 0 (length cs)
      (c # 32 # 35 # b, cs, None))"
    by (simp only: rmatch_Dot_eat)
  from rep_eat[OF this] obtain k where k: "k \<le> length cs"
    "st1 = (rev (take k cs) @ c # 32 # 35 # b, drop k cs, None)" by blast
  have "group1 st = c # take k cs"
    using st k by (simp add: Suc_diff_le)
  with c show ?thesis by blast
qed

lemma comment_purpose:
  assumes "re_search comment_pattern text = Some comment_match"
  shows "strip (group1 comment_match) \<noteq> []"
proof -
  from assms re_search_from_Some obtain b a where
    "comment_match \<in> set (rmatch comment_pattern (b, a, None))"
    unfolding re_search_def by blast
  from rmatch_comment[OF this] obtain c t where g: "group1 comment_match = c # t"
    and c: "in_ranges [(65, 90), (97, 122)] c" by blast
  from c have "\<not> is_space c" by (auto simp: in_ranges_def is_space_def)
  with g show ?thesis by (simp add: strip_def strip_by_Nil_iff)
qed

lemma infer_purpose_nonempty: "infer_purpose table text nm \<noteq> []"
proof -
  have lits: "u '' module for '' \<noteq> []" "u ''Defines the '' \<noteq> []" "u ''Provides '' \<noteq> []"
    "u ''Handles '' \<noteq> []"
    by (simp_all add: u_def)
  show ?thesis
  proof (cases "List.find (\<lambda>(purpose_key, indicators).
      list_ex (\<lambda>indicator. contains indicator (lower nm)) indicators) table")
    case None
    then show ?thesis using lits by (simp add: infer_purpose_def)
  next
    case (Some found)
    obtain purpose_key indicators where "found = (purpose_key, indicators)" by (cases found)
    with Some show ?thesis using lits by (simp add: infer_purpose_def)
  qed
qed

lemma describe_module_purpose:
  "\<exists>p. purpose (describe_module table m) = Some p \<and> (p = [] \<longleftrightarrow> blank_docstring (content m))"
proof (cases "re_search docstring_pattern (content m)")
  case None
  show ?thesis
  proof (cases "re_search comment_pattern (content m)")
    case N: None
    with None show ?thesis
      by (simp add: describe_module_def blank_docstring_def infer_purpose_nonempty)
  next
    case (Some cm)
    with None comment_purpose[OF Some] show ?thesis
      by (simp add: describe_module_def blank_docstring_def)
  qed
next
  case (Some dm)
  have "strip (first_line (strip (group1 dm))) = [] \<longleftrightarrow> list_all is_space (group1 dm)"
  proof (cases "strip (group1 dm) = []")
    case True
    then have "list_all is_space (group1 dm)" by (simp add: strip_def strip_by_Nil_iff)
    moreover have "strip (first_line []) = []"
      by (simp add: first_line_def strip_def strip_by_def)
    ultimately show ?thesis using True by simp
  next
    case False
    from strip_first_line[OF this] False show ?thesis
      by (simp add: strip_def strip_by_Nil_iff)
  qed
  with Some show ?thesis
    by (simp add: describe_module_def blank_docstring_def Let_def)
qed

lemma describe_module_content: "content (describe_module table m) = content m"
  by (simp add: describe_module_def Let_def split: option.splits)

text \<open>
  C8, amended. After the semantic-purpose stage completes, every module has a purpose,
  and the purpose is the empty string exactly when the first text between triple double
  quotes in the module's content consists of white space only (an empty or blank
  docstring); in every other case it is a non-empty string.
\<close>

theorem extract_semantic_purpose_purpose:
  assumes "extract_semantic_purpose table parse ms = Inr ms'"
  shows "\<forall>m'\<in>set ms'. \<exists>p. purpose m' = Some p \<and> (p = [] \<longleftrightarrow> blank_docstring (content m'))"
  using assms
proof (induction ms arbitrary: ms')
  case Nil
  then show ?case by simp
next
  case (Cons m ms)
  from Cons.prems obtain tree rest where t: "ast_parse parse (content m) = Inr tree"
    and r: "extract_semantic_purpose table parse ms = Inr rest"
    and ms': "ms' = describe_module table
                (m\<lparr>functions_list := Some (extract_functions (ModNode tree)),
                   classes_list := Some (extract_classes (ModNode tree))\<rparr>) # rest"
    by (auto simp: Let_def split: sum.splits)
  let ?m1 = "m\<lparr>functions_list := Some (extract_functions (ModNode tree)),
                classes_list := Some (extract_classes (ModNode tree))\<rparr>"
  from describe_module_purpose[of table ?m1] describe_module_content[of table ?m1]
  have "\<exists>p. purpose (describe_module table ?m1) = Some p \<and>
      (p = [] \<longleftrightarrow> blank_docstring (content (describe_module table ?m1)))"
    by simp
  with Cons.IH[OF r] ms' show ?case by simp
qed


lemma parse_empty_docstring: "example_parse empty_docstring = Inr (Module [Expr (Constant [])])"
  by (simp add: parse_eval)

text \<open>
  C8, as the claim states it, fails: for a module whose content is an empty docstring,
  six double quotes, the stage completes and sets the purpose to the empty string.
\<close>

theorem extract_semantic_purpose_counterexample:
  "extract_semantic_purpose MODULE_PURPOSE_INDICATORS example_parse
     [new_module (u ''module_0'') 0 0 empty_docstring] =
     Inr [\<lparr>name = u ''module_0'', start_line = 0, end_line = 0, content = empty_docstring,
           purpose = Some [], docstring = Some [],
           functions_list = Some [], classes_list = Some []\<rparr>]"
proof -
  have "re_search docstring_pattern empty_docstring = Some ([34, 34, 34, 34, 34, 34], [], Some [])"
    by (simp add: docstring_pattern_def regex_eval empty_docstring_def)
  then show ?thesis
    by (simp add: ast_parse_def parse_empty_docstring describe_module_def new_module_def
          extract_functions_def extract_classes_def strip_def strip_by_def first_line_def)
qed

lemma purpose_x:
  "extract_semantic_purpose MODULE_PURPOSE_INDICATORS example_parse
     [new_module (u ''module_0'') 0 0 (u ''x = 1'')] =
     Inr [\<lparr>name = u ''module_0'', start_line = 0, end_line = 0, content = u ''x = 1'',
           purpose = Some (u ''Handles module 0 operations''), docstring = None,
           functions_list = Some [], classes_list = Some []\<rparr>]"
proof -
  have d: "re_search docstring_pattern (u ''x = 1'') = None"
    by (simp add: docstring_pattern_def regex_eval)
  have c: "re_search comment_pattern (u ''x = 1'') = None"
    by (simp add: comment_pattern_def regex_eval)
  have i: "infer_purpose MODULE_PURPOSE_INDICATORS (u ''x = 1'') (u ''module_0'') =
      u ''Handles module 0 operations''"
    by (simp add: infer_purpose_def MODULE_PURPOSE_INDICATORS_def u_def lower_def lower_chr_def
          is_upper_def startswith_def replace_chr_def)
  show ?thesis
    by (simp add: ast_parse_def parse_x describe_module_def new_module_def d c i
          extract_functions_def extract_classes_def)
qed

theorem extract_semantic_purpose_purpose_witness:
  "extract_semantic_purpose MODULE_PURPOSE_INDICATORS example_parse
     [new_module (u ''module_0'') 0 0 (u ''x = 1'')] =
     Inr [\<lparr>name = u ''module_0'', start_line = 0, end_line = 0, content = u ''x = 1'',
           purpose = Some (u ''Handles module 0 operations''), docstring = None,
           functions_list = Some [], classes_list = Some []\<rparr>] \<and>
   \<not> blank_docstring (u ''x = 1'')"
proof -
  have "u ''Handles module 0 operations'' \<noteq> []" by (simp add: u_def)
  with extract_semantic_purpose_purpose[OF purpose_x] purpose_x show ?thesis by simp
qed


section \<open>Properties of the symbol scan\<close>

lemma re_findall_identifier:
  assumes "x \<in> set (re_findall identifier_pattern text)"
  shows "is_identifier x \<and> (\<exists>before after. text = before @ x @ after)"
proof -
  from assms obtain b a st where t: "rev b @ a = text"
    and st: "st \<in> set (rmatch identifier_pattern (b, a, None))" and x: "x = group1 st"
    using findall_loop_groups[of x identifier_pattern "[]" "text"]
    by (auto simp: re_findall_def)
  from rmatch_identifier[OF st] x have i: "is_identifier x" and p: "x = take (length x) a"
    by simp_all
  have "text = rev b @ x @ drop (length x) a"
    using t p by (metis append_take_drop_id)
  with i show ?thesis by blast
qed

lemma used_at_set: "set (concat (map used_at ns)) = names_and_callees ns"
proof -
  have "ident \<in> set (used_at n) \<longleftrightarrow>
      n = ExprNode (Name ident Load) \<or> (\<exists>ctx args keywords. n = ExprNode (Call (Name ident ctx) args keywords))"
    for ident n
    by (induction n rule: used_at.induct) (auto split: expr.splits)
  then show ?thesis by (auto simp: names_and_callees_def)
qed

lemma parse_else: "example_parse (u ''else:'') = Inl SyntaxError"
  by (simp add: parse_eval)

lemma parse_surrogate: "example_parse [55296] = Inl UnicodeEncodeError"
  by (simp add: parse_eval)

lemma findall_else: "re_findall identifier_pattern (u ''else:'') = [u ''else'']"
  by (simp add: re_findall_def identifier_pattern_def seqs_def in_ranges_def u_def is_word_ascii
        is_upper_def is_lower_def is_digit_def)

lemma word_e_acute: "is_word 233"
  by (simp add: is_word_def word_ranges_def)

lemma parse_accented: "example_parse (233 # u ''a else:'') = Inl SyntaxError"
  by (simp add: parse_eval)

lemma findall_accented: "re_findall identifier_pattern (233 # u ''a else:'') = [u ''else'']"
  by (simp add: re_findall_def identifier_pattern_def seqs_def in_ranges_def u_def is_word_ascii
        word_e_acute is_upper_def is_lower_def is_digit_def)

lemma walk_helper_call:
  "names_and_callees (walk (ModNode helper_call)) = {u ''helper'', u ''x''}"
  by (auto simp: names_and_callees_def walk_def helper_call_def u_def)

text \<open>
  C9, as the claim states it, fails: \<open>ast.parse\<close> rejects a string that holds a lone
  surrogate (here the one character U+D800) with \<open>UnicodeEncodeError\<close>, which is not a
  \<open>SyntaxError\<close>, so the handler does not apply and \<open>extract_used_symbols\<close> raises.
\<close>

theorem extract_used_symbols_counterexample:
  "example_parse [55296] = Inl UnicodeEncodeError \<and>
   extract_used_symbols example_parse [55296] = Inl UnicodeEncodeError"
  by (simp add: extract_used_symbols_def used_symbols_try_def ast_parse_def parse_surrogate)

text \<open>
  C9, amended. When the text parses, \<open>extract_used_symbols\<close> returns the names read in a
  load context and the directly called names; when \<open>ast.parse\<close> raises \<open>SyntaxError\<close>, it
  returns the set of what the identifier pattern finds in the raw text, each of which is
  an identifier and a contiguous part of the text; any other exception of \<open>ast.parse\<close>
  is raised by \<open>extract_used_symbols\<close> as well.
\<close>

theorem extract_used_symbols_result:
  "(parse text = Inr tree \<longrightarrow>
      extract_used_symbols parse text = Inr (names_and_callees (walk (ModNode tree)))) \<and>
   (parse text = Inl SyntaxError \<longrightarrow>
      extract_used_symbols parse text = Inr (set (re_findall identifier_pattern text))) \<and>
   (parse text = Inl e \<and> e \<noteq> SyntaxError \<longrightarrow> extract_used_symbols parse text = Inl e) \<and>
   (\<forall>x\<in>set (re_findall identifier_pattern text).
      is_identifier x \<and> (\<exists>before after. text = before @ x @ after))"
proof (intro conjI impI)
  assume "parse text = Inr tree"
  then show "extract_used_symbols parse text = Inr (names_and_callees (walk (ModNode tree)))"
    by (simp add: extract_used_symbols_def used_symbols_try_def ast_parse_def used_at_set
          del: set_concat)
next
  assume "parse text = Inl SyntaxError"
  then show "extract_used_symbols parse text = Inr (set (re_findall identifier_pattern text))"
    by (simp add: extract_used_symbols_def used_symbols_try_def ast_parse_def)
next
  assume "parse text = Inl e \<and> e \<noteq> SyntaxError"
  then show "extract_used_symbols parse text = Inl e"
    by (cases e) (simp_all add: extract_used_symbols_def used_symbols_try_def ast_parse_def)
next
  show "\<forall>x\<in>set (re_findall identifier_pattern text).
      is_identifier x \<and> (\<exists>before after. text = before @ x @ after)"
    using re_findall_identifier by blast
qed

theorem extract_used_symbols_result_witness:
  "example_parse helper_user = Inr helper_call \<and>
   extract_used_symbols example_parse helper_user = Inr {u ''helper'', u ''x''} \<and>
   example_parse (u ''else:'') = Inl SyntaxError \<and>
   extract_used_symbols example_parse (u ''else:'') = Inr {u ''else''} \<and>
   is_identifier (u ''else'') \<and> (\<exists>before after. u ''else:'' = before @ u ''else'' @ after) \<and>
   example_parse (233 # u ''a else:'') = Inl SyntaxError \<and>
   extract_used_symbols example_parse (233 # u ''a else:'') = Inr {u ''else''} \<and>
   example_parse [55296] = Inl UnicodeEncodeError \<and>
   extract_used_symbols example_parse [55296] = Inl UnicodeEncodeError"
  using extract_used_symbols_result[of example_parse "u ''else:''"]
    extract_used_symbols_result[of example_parse helper_user helper_call]
    extract_used_symbols_result[of example_parse "233 # u ''a else:''"]
    extract_used_symbols_result[of example_parse "[55296]" _ UnicodeEncodeError]
  by (simp add: parse_else findall_else parse_helper_user walk_helper_call parse_surrogate
        parse_accented findall_accented)

end
